theory Spec2Isabelle
  imports Complex_Main "HOL-Library.AList" "HOL-Library.Product_Lexorder" "HOL-Library.Multiset"
begin

section \<open>Data model\<close>

text \<open>
  Tasks and students are Python dictionaries keyed by identifier. Iteration order
  matters for the loops of the fitness evaluator, so a dictionary is an association
  list in insertion order; a dictionary never holds a key twice, which the theorems
  assume of the task table where they need it (\<open>distinct (map fst (tasks P))\<close>).

  Python floats are modelled as real numbers: rounding and overflow are not part of
  the model. The only special value that the evaluator produces on purpose,
  \<open>float('inf')\<close>, is a constructor of its own. \<open>float(task['estimated_time'])\<close> and
  \<open>float(start_time)\<close> are the reals stored in the records: a start time is the value
  \<open>float\<close> reads from it, whether the code holds it as a number or as the string
  \<open>str\<close> made of one. Two assignments are equal when their task, their student and
  this value agree, and so are two solutions that agree position by position.
\<close>

type_synonym task_id = string
type_synonym student_id = string
type_synonym skill = string

record task =
  estimated_time :: real
  dependencies :: "task_id list"
  skill_requirements :: "(skill \<times> real) list"

record student =
  skills :: "(skill \<times> real) list"

record problem =
  tasks :: "(task_id \<times> task) list"
  students :: "(student_id \<times> student) list"

type_synonym assignment = "task_id \<times> student_id \<times> real"
type_synonym solution = "assignment list"

datatype error = KeyError | ZeroDivisionError | ValueError | IndexError | AttributeError

text \<open>A fitness value: a finite cost or \<open>float('inf')\<close>.\<close>

datatype fitness = Fin real | PInf

instantiation fitness :: linorder
begin

fun less_eq_fitness :: "fitness \<Rightarrow> fitness \<Rightarrow> bool" where
  "less_eq_fitness (Fin a) (Fin b) = (a \<le> b)"
| "less_eq_fitness _ PInf = True"
| "less_eq_fitness PInf (Fin b) = False"

definition less_fitness :: "fitness \<Rightarrow> fitness \<Rightarrow> bool" where
  "less_fitness x y = (x \<le> y \<and> \<not> y \<le> x)"

instance
proof
  fix x y z :: fitness
  show "(x < y) = (x \<le> y \<and> \<not> y \<le> x)"
    by (simp add: less_fitness_def)
  show "x \<le> x"
    by (cases x) simp_all
  show "x \<le> y \<Longrightarrow> y \<le> z \<Longrightarrow> x \<le> z"
    by (cases x; cases y; cases z) simp_all
  show "x \<le> y \<Longrightarrow> y \<le> x \<Longrightarrow> x = y"
    by (cases x; cases y) simp_all
  show "x \<le> y \<or> y \<le> x"
    by (cases x; cases y) auto
qed

end

section \<open>Python primitives\<close>

definition py_div :: "real \<Rightarrow> real \<Rightarrow> error + real" where
  "py_div x y = (if y = 0 then Inl ZeroDivisionError else Inr (x / y))"

fun py_max :: "real list \<Rightarrow> error + real" where
  "py_max [] = Inl ValueError"
| "py_max (x # xs) = Inr (fold max xs x)"

fun py_min :: "real list \<Rightarrow> error + real" where
  "py_min [] = Inl ValueError"
| "py_min (x # xs) = Inr (fold min xs x)"

definition dict_get :: "('k \<times> 'v) list \<Rightarrow> 'k \<Rightarrow> error + 'v" where
  "dict_get d k = (case map_of d k of None \<Rightarrow> Inl KeyError | Some v \<Rightarrow> Inr v)"

section \<open>Fitness evaluator (ga\_fitness.py)\<close>

record pass_state =
  completion_times :: "(task_id \<times> real) list"
  start_times :: "(task_id \<times> real) list"
  student_workloads :: "(student_id \<times> real) list"
  student_timelines :: "(student_id \<times> (real \<times> real) list) list"

text \<open>First pass (lines 25-34): completion times, start times, workloads, timelines.\<close>

definition pass_step :: "problem \<Rightarrow> assignment \<Rightarrow> pass_state \<Rightarrow> error + pass_state" where
  "pass_step P a st =
     (case a of (task_id, student_id, start_time) \<Rightarrow>
        (case map_of (tasks P) task_id of
           None \<Rightarrow> Inl KeyError
         | Some task \<Rightarrow>
             (let duration = estimated_time task;
                  completion_time = start_time + duration
              in (case map_of (student_workloads st) student_id of
                    None \<Rightarrow> Inl KeyError
                  | Some w \<Rightarrow>
                      (case map_of (student_timelines st) student_id of
                         None \<Rightarrow> Inl KeyError
                       | Some timeline \<Rightarrow>
                           Inr (st\<lparr>completion_times :=
                                     AList.update task_id completion_time (completion_times st),
                                   start_times :=
                                     AList.update task_id start_time (start_times st),
                                   student_workloads :=
                                     AList.update student_id (w + duration)
                                       (student_workloads st),
                                   student_timelines :=
                                     AList.update student_id
                                       (timeline @ [(start_time, completion_time)])
                                       (student_timelines st)\<rparr>))))))"

fun first_pass :: "problem \<Rightarrow> solution \<Rightarrow> pass_state \<Rightarrow> error + pass_state" where
  "first_pass P [] st = Inr st"
| "first_pass P (a # rest) st =
     (case pass_step P a st of
        Inl e \<Rightarrow> Inl e
      | Inr st1 \<Rightarrow> first_pass P rest st1)"

text \<open>
  Dependency penalty (lines 45-52). The result \<open>None\<close> is the early
  \<open>return float('inf')\<close> of line 49.
\<close>

fun dep_inner ::
  "real \<Rightarrow> (task_id \<times> real) list \<Rightarrow> (task_id \<times> real) list \<Rightarrow> task_id \<Rightarrow>
   task_id list \<Rightarrow> real \<Rightarrow> error + real option" where
  "dep_inner D ct stt task_id [] p_dep = Inr (Some p_dep)"
| "dep_inner D ct stt task_id (dep_id # deps) p_dep =
     (case map_of ct dep_id of
        None \<Rightarrow> Inr None
      | Some c \<Rightarrow>
          (case map_of stt task_id of
             None \<Rightarrow> Inl KeyError
           | Some s \<Rightarrow>
               if s < c then
                 (case py_div (c - s) D of
                    Inl e \<Rightarrow> Inl e
                  | Inr q \<Rightarrow> dep_inner D ct stt task_id deps (p_dep + 300 * q))
               else dep_inner D ct stt task_id deps p_dep))"

fun dep_penalty ::
  "real \<Rightarrow> (task_id \<times> real) list \<Rightarrow> (task_id \<times> real) list \<Rightarrow>
   (task_id \<times> task) list \<Rightarrow> real \<Rightarrow> error + real option" where
  "dep_penalty D ct stt [] p_dep = Inr (Some p_dep)"
| "dep_penalty D ct stt ((task_id, task) # ts) p_dep =
     (case dep_inner D ct stt task_id (dependencies task) p_dep of
        Inl e \<Rightarrow> Inl e
      | Inr None \<Rightarrow> Inr None
      | Inr (Some p) \<Rightarrow> dep_penalty D ct stt ts p)"

text \<open>Skill penalty (lines 55-62); \<open>.get(skill, 0)\<close> defaults to 0.\<close>

fun skill_inner :: "(skill \<times> real) list \<Rightarrow> (skill \<times> real) list \<Rightarrow> real \<Rightarrow> real" where
  "skill_inner sk [] p_skill = p_skill"
| "skill_inner sk ((skill, required_level) # reqs) p_skill =
     (let student_level = (case map_of sk skill of None \<Rightarrow> 0 | Some l \<Rightarrow> l)
      in if student_level < required_level
         then skill_inner sk reqs (p_skill + 200 * (required_level - student_level))
         else skill_inner sk reqs p_skill)"

fun skill_penalty :: "problem \<Rightarrow> solution \<Rightarrow> real \<Rightarrow> error + real" where
  "skill_penalty P [] p_skill = Inr p_skill"
| "skill_penalty P ((task_id, student_id, _) # rest) p_skill =
     (case map_of (tasks P) task_id of
        None \<Rightarrow> Inl KeyError
      | Some task \<Rightarrow>
          (case map_of (students P) student_id of
             None \<Rightarrow> Inl KeyError
           | Some student \<Rightarrow>
               skill_penalty P rest
                 (skill_inner (skills student) (skill_requirements task) p_skill)))"

text \<open>Overlap penalty (lines 75-81): adjacent intervals of each sorted timeline.\<close>

fun overlap_timeline :: "real \<Rightarrow> (real \<times> real) list \<Rightarrow> real \<Rightarrow> error + real" where
  "overlap_timeline D (a # b # rest) p_overlap =
     (if snd a > fst b then
        (case py_div (snd a - fst b) D of
           Inl e \<Rightarrow> Inl e
         | Inr q \<Rightarrow> overlap_timeline D (b # rest) (p_overlap + 400 * q))
      else overlap_timeline D (b # rest) p_overlap)"
| "overlap_timeline D _ p_overlap = Inr p_overlap"

fun overlap_penalty ::
  "real \<Rightarrow> (student_id \<times> (real \<times> real) list) list \<Rightarrow> real \<Rightarrow> error + real" where
  "overlap_penalty D [] p_overlap = Inr p_overlap"
| "overlap_penalty D ((student_id, timeline) # rest) p_overlap =
     (case overlap_timeline D (sort timeline) p_overlap of
        Inl e \<Rightarrow> Inl e
      | Inr p \<Rightarrow> overlap_penalty D rest p)"

definition total_task_duration :: "problem \<Rightarrow> real" where
  "total_task_duration P = sum_list (map (\<lambda>(_, t). estimated_time t) (tasks P))"

definition initial_pass_state :: "problem \<Rightarrow> pass_state" where
  "initial_pass_state P =
     \<lparr>completion_times = [], start_times = [],
      student_workloads = map (\<lambda>(s, _). (s, 0)) (students P),
      student_timelines = map (\<lambda>(s, _). (s, [])) (students P)\<rparr>"

text \<open>Time penalty (lines 41-42).\<close>

definition time_penalty :: "real \<Rightarrow> pass_state \<Rightarrow> error + real" where
  "time_penalty D st =
     (case py_max (map snd (completion_times st)) of
        Inl e \<Rightarrow> Inl e
      | Inr max_c \<Rightarrow>
          (case py_min (map snd (start_times st)) of
             Inl e \<Rightarrow> Inl e
           | Inr min_s \<Rightarrow>
               (case py_div (max_c - min_s) D of
                  Inl e \<Rightarrow> Inl e
                | Inr q \<Rightarrow> Inr (q * 100))))"

text \<open>Workload balance penalty (lines 65-72).\<close>

definition load_penalty :: "problem \<Rightarrow> real \<Rightarrow> pass_state \<Rightarrow> error + fitness" where
  "load_penalty P D st =
     (case py_max (map snd (student_workloads st)) of
        Inl e \<Rightarrow> Inl e
      | Inr max_workload \<Rightarrow>
          (case py_min (map snd (student_workloads st)) of
             Inl e \<Rightarrow> Inl e
           | Inr min_workload \<Rightarrow>
               (case py_div D (real (length (students P))) of
                  Inl e \<Rightarrow> Inl e
                | Inr avg_workload \<Rightarrow>
                    if avg_workload = 0 then Inr PInf
                    else Inr (Fin (100 * (max_workload - min_workload) / avg_workload)))))"

text \<open>
  The body after the first pass (lines 36-90). The weights are the constants of
  \<open>__init__\<close>: 1, 3, 2, 1, 4. The weighted sum with an infinite load penalty is
  \<open>float('inf')\<close>, every other term being finite.
\<close>

definition weighted_sum :: "real \<Rightarrow> real \<Rightarrow> real \<Rightarrow> fitness \<Rightarrow> real \<Rightarrow> fitness" where
  "weighted_sum p_time p_dep p_skill p_load p_overlap =
     (case p_load of
        PInf \<Rightarrow> PInf
      | Fin l \<Rightarrow> Fin (1 * p_time + 3 * p_dep + 2 * p_skill + 1 * l + 4 * p_overlap))"

definition fitness_of_pass :: "problem \<Rightarrow> solution \<Rightarrow> pass_state \<Rightarrow> error + fitness" where
  "fitness_of_pass P solution st =
     (let D = total_task_duration P in
      if length (completion_times st) \<noteq> length (tasks P) then Inr PInf
      else
        (case time_penalty D st of
           Inl e \<Rightarrow> Inl e
         | Inr p_time \<Rightarrow>
             (case dep_penalty D (completion_times st) (start_times st) (tasks P) 0 of
                Inl e \<Rightarrow> Inl e
              | Inr None \<Rightarrow> Inr PInf
              | Inr (Some p_dep) \<Rightarrow>
                  (case skill_penalty P solution 0 of
                     Inl e \<Rightarrow> Inl e
                   | Inr p_skill \<Rightarrow>
                       (case load_penalty P D st of
                          Inl e \<Rightarrow> Inl e
                        | Inr p_load \<Rightarrow>
                            (case overlap_penalty D (student_timelines st) 0 of
                               Inl e \<Rightarrow> Inl e
                             | Inr p_overlap \<Rightarrow>
                                 Inr (weighted_sum p_time p_dep p_skill p_load p_overlap)))))))"

definition calculate_fitness :: "problem \<Rightarrow> solution \<Rightarrow> error + fitness" where
  "calculate_fitness P solution =
     (if solution = [] then Inr PInf
      else case first_pass P solution (initial_pass_state P) of
             Inl e \<Rightarrow> Inl e
           | Inr st \<Rightarrow> fitness_of_pass P solution st)"

subsection \<open>Well-formed solutions and example inputs\<close>

text \<open>
  Every assignment of the solution names a task of the task table and a student of
  the student table.
\<close>

definition references_known :: "problem \<Rightarrow> solution \<Rightarrow> bool" where
  "references_known P sol =
     list_all (\<lambda>(t, s, _). t \<in> fst ` set (tasks P) \<and> s \<in> fst ` set (students P)) sol"

definition students_tracked :: "problem \<Rightarrow> pass_state \<Rightarrow> bool" where
  "students_tracked P st =
     (fst ` set (student_workloads st) = fst ` set (students P) \<and>
      fst ` set (student_timelines st) = fst ` set (students P))"

text \<open>How many assignments of a solution carry a given task.\<close>

definition task_count :: "solution \<Rightarrow> task_id \<Rightarrow> nat" where
  "task_count sol t = length (filter (\<lambda>a. fst a = t) sol)"

definition chain_problem :: problem where
  "chain_problem =
     \<lparr>tasks = [(''T1'', \<lparr>estimated_time = 2, dependencies = [], skill_requirements = []\<rparr>),
               (''T2'', \<lparr>estimated_time = 3, dependencies = [''T1''],
                        skill_requirements = [(''x'', 2)]\<rparr>)],
      students = [(''S1'', \<lparr>skills = []\<rparr>), (''S2'', \<lparr>skills = [(''x'', 1)]\<rparr>)]\<rparr>"

definition single_problem :: problem where
  "single_problem =
     \<lparr>tasks = [(''T1'', \<lparr>estimated_time = 2, dependencies = [], skill_requirements = []\<rparr>)],
      students = [(''S1'', \<lparr>skills = []\<rparr>)]\<rparr>"

definition zero_duration_problem :: problem where
  "zero_duration_problem =
     \<lparr>tasks = [(''T1'', \<lparr>estimated_time = 0, dependencies = [], skill_requirements = []\<rparr>)],
      students = [(''S1'', \<lparr>skills = []\<rparr>)]\<rparr>"

definition no_students_problem :: problem where
  "no_students_problem =
     \<lparr>tasks = [(''T1'', \<lparr>estimated_time = 2, dependencies = [], skill_requirements = []\<rparr>)],
      students = []\<rparr>"



section \<open>Fitness cache of the evolution engine (ga\_main.py)\<close>

text \<open>
  \<open>self._fitness_cache\<close> is a dictionary from \<open>tuple(tuple(x) for x in solution)\<close>
  to the fitness. Two keys are equal when the solutions are equal position by
  position, so the key is the solution itself.
\<close>

type_synonym fitness_cache = "(solution \<times> fitness) list"

definition get_fitness ::
  "problem \<Rightarrow> fitness_cache \<Rightarrow> solution \<Rightarrow> (error + fitness) \<times> fitness_cache" where
  "get_fitness P cache solution =
     (let solution_tuple = solution in
      (case map_of cache solution_tuple of
         None \<Rightarrow>
           (case calculate_fitness P solution of
              Inl e \<Rightarrow> (Inl e, cache)
            | Inr f \<Rightarrow> (Inr f, AList.update solution_tuple f cache))
       | Some f \<Rightarrow> (Inr f, cache)))"

definition clear_fitness_cache :: "fitness_cache \<Rightarrow> fitness_cache" where
  "clear_fitness_cache cache = []"

text \<open>
  The caches an engine can hold: the attribute starts empty (line 39) and is written
  only by \<open>get_fitness\<close> and \<open>clear_fitness_cache\<close>.
\<close>

inductive engine_cache :: "problem \<Rightarrow> fitness_cache \<Rightarrow> bool" for P where
  fresh: "engine_cache P []"
| after_get: "engine_cache P cache \<Longrightarrow> engine_cache P (snd (get_fitness P cache solution))"
| after_clear: "engine_cache P cache \<Longrightarrow> engine_cache P (clear_fitness_cache cache)"

section \<open>Random source\<close>

text \<open>
  The module-level generator of Python's \<open>random\<close> is an explicit stream of raw draws
  \<open>rnd\<close> read at a cursor; every call consumes one draw. \<open>random.random()\<close> returns a
  multiple of \<open>2 ^ -53\<close> in \<open>[0, 1)\<close>; \<open>randint\<close>, \<open>choice\<close> and \<open>sample\<close> return
  any value of their range.
\<close>

type_synonym rng = "nat \<Rightarrow> nat"

definition random_unit :: "rng \<Rightarrow> nat \<Rightarrow> real" where
  "random_unit rnd c = real (rnd c mod 2 ^ 53) / 2 ^ 53"

definition randint :: "rng \<Rightarrow> nat \<Rightarrow> nat \<Rightarrow> nat \<Rightarrow> nat" where
  "randint rnd c a b = a + rnd c mod (b - a + 1)"

definition uniform :: "rng \<Rightarrow> nat \<Rightarrow> real \<Rightarrow> real \<Rightarrow> real" where
  "uniform rnd c a b = a + (b - a) * random_unit rnd c"

definition choice :: "rng \<Rightarrow> nat \<Rightarrow> 'a list \<Rightarrow> error + 'a" where
  "choice rnd c xs = (if xs = [] then Inl IndexError else Inr (xs ! (rnd c mod length xs)))"

text \<open>\<open>random.sample(range(n), 2)\<close> for \<open>n \<ge> 2\<close>: two distinct positions, two draws.\<close>

definition sample2 :: "rng \<Rightarrow> nat \<Rightarrow> nat \<Rightarrow> nat \<times> nat" where
  "sample2 rnd c n =
     (let i = rnd c mod n;
          j = rnd (Suc c) mod (n - 1)
      in (i, if j \<ge> i then Suc j else j))"

section \<open>Crossover (ga\_crossover.py)\<close>

text \<open>
  \<open>uniform_crossover\<close> (lines 60-72). The children start as copies of the parents;
  the loop runs over \<open>range(len(parent1))\<close>, and \<open>parent2[i]\<close> raises \<open>IndexError\<close>
  when the second parent is shorter. The cursor of the random source is returned with
  the children.
\<close>

fun uniform_loop ::
  "rng \<Rightarrow> nat \<Rightarrow> real \<Rightarrow> solution \<Rightarrow> solution \<Rightarrow> nat list \<Rightarrow> solution \<Rightarrow> solution \<Rightarrow>
   error + (solution \<times> solution \<times> nat)" where
  "uniform_loop rnd c swap_probability parent1 parent2 [] child1 child2 =
     Inr (child1, child2, c)"
| "uniform_loop rnd c swap_probability parent1 parent2 (i # rest) child1 child2 =
     (if random_unit rnd c < swap_probability then
        (if i < length parent2 then
           uniform_loop rnd (Suc c) swap_probability parent1 parent2 rest
             (child1[i := parent2 ! i]) (child2[i := parent1 ! i])
         else Inl IndexError)
      else uniform_loop rnd (Suc c) swap_probability parent1 parent2 rest child1 child2)"

definition uniform_crossover ::
  "rng \<Rightarrow> nat \<Rightarrow> solution \<Rightarrow> solution \<Rightarrow> real \<Rightarrow> error + (solution \<times> solution \<times> nat)" where
  "uniform_crossover rnd c parent1 parent2 swap_probability =
     uniform_loop rnd c swap_probability parent1 parent2 [0..<length parent1] parent1 parent2"

section \<open>Mutation (ga\_mutation.py)\<close>

text \<open>\<open>int(x)\<close> on a float truncates towards zero.\<close>

definition py_int :: "real \<Rightarrow> int" where
  "py_int x = (if x \<ge> 0 then \<lfloor>x\<rfloor> else \<lceil>x\<rceil>)"

text \<open>
  \<open>random.choices(population, weights)[0]\<close>: the index is found by bisection of the
  cumulative weights (all but the last) at \<open>random() * total\<close>.
\<close>

fun accumulate :: "real \<Rightarrow> real list \<Rightarrow> real list" where
  "accumulate s [] = []"
| "accumulate s (w # ws) = (s + w) # accumulate (s + w) ws"

definition choices_index :: "rng \<Rightarrow> nat \<Rightarrow> real list \<Rightarrow> nat" where
  "choices_index rnd c weights =
     (let cum_weights = accumulate 0 weights;
          total = last cum_weights
      in length (takeWhile (\<lambda>w. w \<le> random_unit rnd c * total) (butlast cum_weights)))"

datatype mutation_type = Reassign | AdjustTime | SwapTasks | ShiftSchedule

definition mutation_types :: "mutation_type list" where
  "mutation_types = [Reassign, AdjustTime, SwapTasks, ShiftSchedule]"

definition mutation_weights :: "real \<Rightarrow> real list" where
  "mutation_weights temperature_ratio =
     (if temperature_ratio > 0.7 then [0.4, 0.3, 0.2, 0.1]
      else if temperature_ratio > 0.3 then [0.5, 0.3, 0.1, 0.1]
      else [0.6, 0.3, 0.1, 0.0])"

definition get_suitable_student :: "problem \<Rightarrow> rng \<Rightarrow> nat \<Rightarrow> task_id \<Rightarrow> error + student_id" where
  "get_suitable_student P rnd c task_id =
     (case map_of (tasks P) task_id of
        None \<Rightarrow> Inl KeyError
      | Some task \<Rightarrow>
          (let required_skills = skill_requirements task;
               suitable_students =
                 map fst (filter (\<lambda>(student_id, student).
                            list_all (\<lambda>(skill, _). map_of (skills student) skill \<noteq> None)
                              required_skills)
                          (students P))
           in if suitable_students \<noteq> [] then choice rnd c suitable_students
              else choice rnd c (map fst (students P))))"

definition num_mutations :: "nat \<Rightarrow> real \<Rightarrow> nat" where
  "num_mutations len temperature_ratio =
     nat (max 1 (py_int (real len * 0.1 * temperature_ratio)))"

definition shift_one :: "real \<Rightarrow> nat \<Rightarrow> solution \<Rightarrow> solution" where
  "shift_one shift i mutated =
     (case mutated ! i of
        (task_id, student_id, start_time) \<Rightarrow>
          mutated[i := (task_id, student_id, max 0 (start_time + shift))])"

text \<open>One pass of the loop body of \<open>mutate\<close> (lines 36-88).\<close>

definition mutation_step ::
  "problem \<Rightarrow> rng \<Rightarrow> int \<Rightarrow> int \<Rightarrow> real \<Rightarrow> solution \<times> nat \<Rightarrow> error + solution \<times> nat" where
  "mutation_step P rnd generation max_generations temperature_ratio s =
     (case s of (mutated, c) \<Rightarrow>
      (case py_div (real_of_int generation) (real_of_int max_generations) of
         Inl e \<Rightarrow> Inl e
       | Inr progress \<Rightarrow>
           (case mutation_types ! choices_index rnd c (mutation_weights temperature_ratio) of
              Reassign \<Rightarrow>
                (let pos = randint rnd (c + 1) 0 (length mutated - 1) in
                 (case mutated ! pos of
                    (task_id, _, start_time) \<Rightarrow>
                      (case get_suitable_student P rnd (c + 2) task_id of
                         Inl e \<Rightarrow> Inl e
                       | Inr new_student \<Rightarrow>
                           Inr (mutated[pos := (task_id, new_student, start_time)], c + 3))))
            | AdjustTime \<Rightarrow>
                (let pos = randint rnd (c + 1) 0 (length mutated - 1) in
                 (case mutated ! pos of
                    (task_id, student_id, start_time) \<Rightarrow>
                      (case map_of (tasks P) task_id of
                         None \<Rightarrow> Inl KeyError
                       | Some task \<Rightarrow>
                           (let task_duration = estimated_time task;
                                max_adjustment = task_duration * temperature_ratio * 0.5;
                                adjustment = uniform rnd (c + 2) (- max_adjustment) max_adjustment;
                                new_start = max 0 (start_time + adjustment)
                            in Inr (mutated[pos := (task_id, student_id, new_start)], c + 3)))))
            | SwapTasks \<Rightarrow>
                (if length mutated \<ge> 2 then
                   (case sample2 rnd (c + 1) (length mutated) of
                      (pos1, pos2) \<Rightarrow>
                        (case mutated ! pos1 of
                           (task1, student1, time1) \<Rightarrow>
                             (case mutated ! pos2 of
                                (task2, student2, time2) \<Rightarrow>
                                  Inr (mutated[pos1 := (task1, student2, time1),
                                               pos2 := (task2, student1, time2)], c + 3))))
                 else Inr (mutated, c + 1))
            | ShiftSchedule \<Rightarrow>
                (if length mutated \<ge> 2 then
                   (let start_pos = randint rnd (c + 1) 0 (length mutated - 2);
                        max_length = nat (max 1 (py_int (2 * temperature_ratio)));
                        len = randint rnd (c + 2) 1 (min max_length (length mutated - start_pos));
                        max_shift = 2 * temperature_ratio;
                        shift = uniform rnd (c + 3) (- max_shift) max_shift
                    in Inr (fold (shift_one shift) [start_pos..<start_pos + len] mutated, c + 4))
                 else Inr (mutated, c + 1)))))"

text \<open>\<open>for _ in range(n)\<close> over a body that may raise.\<close>

fun iterate_err :: "nat \<Rightarrow> ('s \<Rightarrow> error + 's) \<Rightarrow> 's \<Rightarrow> error + 's" where
  "iterate_err 0 body s = Inr s"
| "iterate_err (Suc n) body s =
     (case body s of
        Inl e \<Rightarrow> Inl e
      | Inr s' \<Rightarrow> iterate_err n body s')"

text \<open>\<open>mutate\<close> (lines 23-90); \<open>None\<close> is the result on an empty solution.\<close>

definition mutate ::
  "problem \<Rightarrow> rng \<Rightarrow> nat \<Rightarrow> solution \<Rightarrow> int \<Rightarrow> int \<Rightarrow> real \<Rightarrow> error + solution option \<times> nat" where
  "mutate P rnd c solution generation max_generations temperature_ratio =
     (if solution = [] then Inr (None, c)
      else
        (case iterate_err (num_mutations (length solution) temperature_ratio)
                (mutation_step P rnd generation max_generations temperature_ratio)
                (solution, c) of
           Inl e \<Rightarrow> Inl e
         | Inr (mutated, c') \<Rightarrow> Inr (Some mutated, c')))"

section \<open>Local search (ga\_local\_search.py)\<close>

text \<open>
  The three moves (lines 58-110). Each works on a deep copy of the solution and
  returns it with the cursor of the random source.
\<close>

definition ls_try_reassignment ::
  "problem \<Rightarrow> rng \<Rightarrow> nat \<Rightarrow> solution \<Rightarrow> error + solution \<times> nat" where
  "ls_try_reassignment P rnd c solution =
     (if solution = [] then Inr (solution, c)
      else
        (let task_idx = randint rnd c 0 (length solution - 1) in
         (case solution ! task_idx of
            (task_id, _, start_time) \<Rightarrow>
              (case choice rnd (c + 1) (map fst (students P)) of
                 Inl e \<Rightarrow> Inl e
               | Inr new_student \<Rightarrow>
                   Inr (solution[task_idx := (task_id, new_student, start_time)], c + 2)))))"

definition ls_try_time_adjustment ::
  "problem \<Rightarrow> rng \<Rightarrow> nat \<Rightarrow> solution \<Rightarrow> error + solution \<times> nat" where
  "ls_try_time_adjustment P rnd c solution =
     (if solution = [] then Inr (solution, c)
      else
        (let task_idx = randint rnd c 0 (length solution - 1) in
         (case solution ! task_idx of
            (task_id, student_id, start_time) \<Rightarrow>
              (case map_of (tasks P) task_id of
                 None \<Rightarrow> Inl KeyError
               | Some task \<Rightarrow>
                   (let max_adjustment = estimated_time task / 2;
                        adjustment = uniform rnd (c + 1) (- max_adjustment) max_adjustment;
                        new_start_time = max 0 (start_time + adjustment)
                    in Inr (solution[task_idx := (task_id, student_id, new_start_time)],
                            c + 2))))))"

definition ls_try_task_swap :: "rng \<Rightarrow> nat \<Rightarrow> solution \<Rightarrow> error + solution \<times> nat" where
  "ls_try_task_swap rnd c solution =
     (if length solution < 2 then Inr (solution, c)
      else
        (case sample2 rnd c (length solution) of
           (idx1, idx2) \<Rightarrow>
             (case solution ! idx1 of
                (task1_id, student1_id, start1) \<Rightarrow>
                  (case solution ! idx2 of
                     (task2_id, student2_id, start2) \<Rightarrow>
                       Inr (solution[idx1 := (task1_id, student2_id, start1),
                                     idx2 := (task2_id, student1_id, start2)], c + 2)))))"

record ls_state =
  ls_best_solution :: solution
  ls_best_fitness :: fitness
  ls_current_solution :: solution
  ls_no_improve_counter :: nat
  ls_cursor :: nat

text \<open>
  One of the three blocks of the loop body (lines 21-46): evaluate the candidate and
  accept it when it beats the best fitness. The flag is the local \<open>improved\<close>.
\<close>

definition ls_consider :: "solution \<Rightarrow> fitness \<Rightarrow> ls_state \<times> bool \<Rightarrow> ls_state \<times> bool" where
  "ls_consider new_solution new_fitness s =
     (case s of (st, improved) \<Rightarrow>
        if new_fitness < ls_best_fitness st then
          (st\<lparr>ls_best_solution := new_solution, ls_best_fitness := new_fitness,
              ls_current_solution := new_solution\<rparr>, True)
        else (st, improved))"

definition ls_move ::
  "problem \<Rightarrow> (nat \<Rightarrow> solution \<Rightarrow> error + solution \<times> nat) \<Rightarrow> ls_state \<times> bool \<Rightarrow>
   error + ls_state \<times> bool" where
  "ls_move P move s =
     (case s of (st, improved) \<Rightarrow>
        (case move (ls_cursor st) (ls_current_solution st) of
           Inl e \<Rightarrow> Inl e
         | Inr (new_solution, c') \<Rightarrow>
             (case calculate_fitness P new_solution of
                Inl e \<Rightarrow> Inl e
              | Inr new_fitness \<Rightarrow>
                  Inr (ls_consider new_solution new_fitness (st\<lparr>ls_cursor := c'\<rparr>, improved)))))"

definition ls_iteration :: "problem \<Rightarrow> rng \<Rightarrow> ls_state \<Rightarrow> error + ls_state" where
  "ls_iteration P rnd st =
     (case ls_move P (ls_try_reassignment P rnd) (st, False) of
        Inl e \<Rightarrow> Inl e
      | Inr s1 \<Rightarrow>
          (case ls_move P (ls_try_time_adjustment P rnd) s1 of
             Inl e \<Rightarrow> Inl e
           | Inr s2 \<Rightarrow>
               (case ls_move P (ls_try_task_swap rnd) s2 of
                  Inl e \<Rightarrow> Inl e
                | Inr (st3, improved) \<Rightarrow>
                    Inr (st3\<lparr>ls_no_improve_counter :=
                               (if \<not> improved then ls_no_improve_counter st3 + 1 else 0)\<rparr>))))"

text \<open>
  The loop \<open>for iteration in range(max_iterations)\<close> with its \<open>break\<close>; the first
  argument counts the iterations that remain.
\<close>

fun ls_loop :: "problem \<Rightarrow> rng \<Rightarrow> nat \<Rightarrow> int \<Rightarrow> ls_state \<Rightarrow> error + ls_state" where
  "ls_loop P rnd 0 max_no_improve st = Inr st"
| "ls_loop P rnd (Suc n) max_no_improve st =
     (case ls_iteration P rnd st of
        Inl e \<Rightarrow> Inl e
      | Inr st' \<Rightarrow>
          if int (ls_no_improve_counter st') \<ge> max_no_improve then Inr st'
          else ls_loop P rnd n max_no_improve st')"

definition ls_improve_solution ::
  "problem \<Rightarrow> rng \<Rightarrow> nat \<Rightarrow> solution \<Rightarrow> int \<Rightarrow> int \<Rightarrow> error + solution \<times> fitness \<times> nat" where
  "ls_improve_solution P rnd c solution max_iterations max_no_improve =
     (case calculate_fitness P solution of
        Inl e \<Rightarrow> Inl e
      | Inr best_fitness \<Rightarrow>
          (case ls_loop P rnd (nat max_iterations) max_no_improve
                  \<lparr>ls_best_solution = solution, ls_best_fitness = best_fitness,
                   ls_current_solution = solution, ls_no_improve_counter = 0,
                   ls_cursor = c\<rparr> of
             Inl e \<Rightarrow> Inl e
           | Inr st \<Rightarrow> Inr (ls_best_solution st, ls_best_fitness st, ls_cursor st)))"

text \<open>
  The states after each iteration of the same loop, the starting state first: the
  sequence of best-fitness values is read from it.
\<close>

fun ls_trace :: "problem \<Rightarrow> rng \<Rightarrow> nat \<Rightarrow> int \<Rightarrow> ls_state \<Rightarrow> error + ls_state list" where
  "ls_trace P rnd 0 max_no_improve st = Inr [st]"
| "ls_trace P rnd (Suc n) max_no_improve st =
     (case ls_iteration P rnd st of
        Inl e \<Rightarrow> Inl e
      | Inr st' \<Rightarrow>
          if int (ls_no_improve_counter st') \<ge> max_no_improve then Inr [st, st']
          else
            (case ls_trace P rnd n max_no_improve st' of
               Inl e \<Rightarrow> Inl e
             | Inr states \<Rightarrow> Inr (st # states)))"

text \<open>The current solution names only known tasks and students.\<close>

definition ls_inv :: "problem \<Rightarrow> ls_state \<times> bool \<Rightarrow> bool" where
  "ls_inv P s = references_known P (ls_current_solution (fst s))"

section \<open>Simulated annealing (ga\_simulated\_annealing.py)\<close>











datatype sa_operation = OpReassign | OpTime | OpSwap












section \<open>Island model: ring migration (ga\_island.py)\<close>

text \<open>
  An island is an evolution engine; migration reads and writes its population and
  goes through its fitness cache. \<open>self.num\_islands\<close> is the number of engines built
  by the constructor, the length of the list.
\<close>

record island =
  current_population :: "solution list"
  fitness_cache :: fitness_cache

text \<open>A slice \<open>xs[:n]\<close>; a negative \<open>n\<close> counts from the end.\<close>

definition py_prefix :: "int \<Rightarrow> 'a list \<Rightarrow> 'a list" where
  "py_prefix n xs = (if n \<ge> 0 then take (nat n) xs else take (length xs - nat (- n)) xs)"

text \<open>
  \<open>sorted(pop, key=get_fitness, reverse=...)\<close>: the keys are computed first, one call
  of \<open>get_fitness\<close> per element in list order, then the list is sorted stably; with
  \<open>reverse=True\<close> equal keys keep their original order too.
\<close>

fun get_fitness_all ::
  "problem \<Rightarrow> fitness_cache \<Rightarrow> solution list \<Rightarrow> error + fitness list \<times> fitness_cache" where
  "get_fitness_all P cache [] = Inr ([], cache)"
| "get_fitness_all P cache (x # xs) =
     (case get_fitness P cache x of
        (Inl e, _) \<Rightarrow> Inl e
      | (Inr f, cache') \<Rightarrow>
          (case get_fitness_all P cache' xs of
             Inl e \<Rightarrow> Inl e
           | Inr (fs, cache'') \<Rightarrow> Inr (f # fs, cache'')))"

definition sorted_by_fitness ::
  "problem \<Rightarrow> fitness_cache \<Rightarrow> bool \<Rightarrow> solution list \<Rightarrow> error + solution list \<times> fitness_cache" where
  "sorted_by_fitness P cache reverse pop =
     (case get_fitness_all P cache pop of
        Inl e \<Rightarrow> Inl e
      | Inr (keys, cache') \<Rightarrow>
          Inr (map snd (if reverse then rev (sort_key fst (rev (zip keys pop)))
                        else sort_key fst (zip keys pop)), cache'))"

text \<open>\<open>xs.index(x)\<close>: the first position that holds \<open>x\<close>, or \<open>ValueError\<close>.\<close>

fun py_index :: "'a list \<Rightarrow> 'a \<Rightarrow> error + nat" where
  "py_index [] x = Inl ValueError"
| "py_index (y # ys) x =
     (if y = x then Inr 0
      else (case py_index ys x of
              Inl e \<Rightarrow> Inl e
            | Inr i \<Rightarrow> Inr (Suc i)))"

text \<open>The loop over \<open>enumerate(migrants)\<close> (lines 117-120); \<open>j\<close> is the running index.\<close>

fun replace_worst ::
  "solution list \<Rightarrow> nat \<Rightarrow> solution list \<Rightarrow> solution list \<Rightarrow> error + solution list" where
  "replace_worst sorted_dest j [] dest_pop = Inr dest_pop"
| "replace_worst sorted_dest j (migrant # rest) dest_pop =
     (if j < length sorted_dest then
        (case py_index dest_pop (sorted_dest ! j) of
           Inl e \<Rightarrow> Inl e
         | Inr idx \<Rightarrow> replace_worst sorted_dest (Suc j) rest (dest_pop[idx := migrant]))
      else replace_worst sorted_dest (Suc j) rest dest_pop)"

text \<open>Lines 100-106: the migrants of a source island with a non-empty population.\<close>

definition select_migrants ::
  "problem \<Rightarrow> int \<Rightarrow> island \<Rightarrow> error + solution list \<times> island" where
  "select_migrants P migration_size source =
     (case sorted_by_fitness P (fitness_cache source) False (current_population source) of
        Inl e \<Rightarrow> Inl e
      | Inr (sorted_source, cache') \<Rightarrow>
          Inr (py_prefix migration_size sorted_source, source\<lparr>fitness_cache := cache'\<rparr>))"

text \<open>Lines 109-120: the destination island takes the migrants.\<close>

definition receive_migrants :: "problem \<Rightarrow> solution list \<Rightarrow> island \<Rightarrow> error + island" where
  "receive_migrants P migrants dest =
     (if current_population dest \<noteq> [] then
        (case sorted_by_fitness P (fitness_cache dest) True (current_population dest) of
           Inl e \<Rightarrow> Inl e
         | Inr (sorted_dest, cache') \<Rightarrow>
             (case replace_worst sorted_dest 0 migrants (current_population dest) of
                Inl e \<Rightarrow> Inl e
              | Inr dest_pop \<Rightarrow>
                  Inr \<lparr>current_population = dest_pop, fitness_cache = cache'\<rparr>))
      else Inr dest)"

text \<open>The body of the loop over the islands (lines 94-120), for island \<open>i\<close>.\<close>

definition migrate_step :: "problem \<Rightarrow> int \<Rightarrow> island list \<Rightarrow> nat \<Rightarrow> error + island list" where
  "migrate_step P migration_size islands i =
     (let source = i;
          dest = (i + 1) mod length islands
      in if current_population (islands ! source) = [] then Inr islands
         else
           (case select_migrants P migration_size (islands ! source) of
              Inl e \<Rightarrow> Inl e
            | Inr (migrants, source_island) \<Rightarrow>
                (let islands1 = islands[source := source_island] in
                 (case receive_migrants P migrants (islands1 ! dest) of
                    Inl e \<Rightarrow> Inl e
                  | Inr dest_island \<Rightarrow> Inr (islands1[dest := dest_island])))))"

fun migrate_loop :: "problem \<Rightarrow> int \<Rightarrow> nat list \<Rightarrow> island list \<Rightarrow> error + island list" where
  "migrate_loop P migration_size [] islands = Inr islands"
| "migrate_loop P migration_size (i # rest) islands =
     (case migrate_step P migration_size islands i of
        Inl e \<Rightarrow> Inl e
      | Inr islands' \<Rightarrow> migrate_loop P migration_size rest islands')"

definition migrate_solutions :: "problem \<Rightarrow> int \<Rightarrow> island list \<Rightarrow> error + island list" where
  "migrate_solutions P migration_size islands =
     migrate_loop P migration_size [0..<length islands] islands"

text \<open>
  The migration round as the specification words it, for comparison: the migrants of
  every island are computed from the populations before the round, then each batch
  is written into the next island of the ring.
\<close>

fun snapshot_select ::
  "problem \<Rightarrow> int \<Rightarrow> island list \<Rightarrow> error + solution list list \<times> island list" where
  "snapshot_select P migration_size [] = Inr ([], [])"
| "snapshot_select P migration_size (source # rest) =
     (case (if current_population source = [] then Inr ([], source)
            else select_migrants P migration_size source) of
        Inl e \<Rightarrow> Inl e
      | Inr (migrants, source') \<Rightarrow>
          (case snapshot_select P migration_size rest of
             Inl e \<Rightarrow> Inl e
           | Inr (batches, rest') \<Rightarrow> Inr (migrants # batches, source' # rest')))"

fun snapshot_apply ::
  "problem \<Rightarrow> nat \<Rightarrow> solution list list \<Rightarrow> island list \<Rightarrow> error + island list" where
  "snapshot_apply P i [] islands = Inr islands"
| "snapshot_apply P i (migrants # batches) islands =
     (let dest = (i + 1) mod length islands in
      (case receive_migrants P migrants (islands ! dest) of
         Inl e \<Rightarrow> Inl e
       | Inr dest_island \<Rightarrow> snapshot_apply P (Suc i) batches (islands[dest := dest_island])))"

definition spec_migrate_snapshot :: "problem \<Rightarrow> int \<Rightarrow> island list \<Rightarrow> error + island list" where
  "spec_migrate_snapshot P migration_size islands =
     (case snapshot_select P migration_size islands of
        Inl e \<Rightarrow> Inl e
      | Inr (batches, islands1) \<Rightarrow> snapshot_apply P 0 batches islands1)"

text \<open>The populations of a result, without the caches.\<close>

definition populations :: "error + island list \<Rightarrow> error + solution list list" where
  "populations r = (case r of Inl e \<Rightarrow> Inl e | Inr islands \<Rightarrow> Inr (map current_population islands))"

definition good_solution :: solution where
  "good_solution = [(''T1'', ''S1'', 0), (''T2'', ''S2'', 2)]"

definition bad_solution :: solution where
  "bad_solution = [(''T1'', ''S1'', 0), (''T2'', ''S1'', 0)]"

definition fresh_island :: "solution list \<Rightarrow> island" where
  "fresh_island pop = \<lparr>current_population = pop, fitness_cache = []\<rparr>"

section \<open>Properties of the fitness evaluator\<close>

lemma keys_update: "fst ` set (AList.update k v al) = insert k (fst ` set al)"
  by (induction al) auto

lemma pass_step_error: "pass_step P a st = Inl e \<Longrightarrow> e = KeyError"
  by (auto simp: pass_step_def Let_def split: prod.splits option.splits)

lemma first_pass_error: "first_pass P sol st = Inl e \<Longrightarrow> e = KeyError"
  by (induction sol arbitrary: st) (auto split: sum.splits dest: pass_step_error)

lemma pass_step_keys:
  "pass_step P a st = Inr st' \<Longrightarrow>
   fst ` set (completion_times st') = insert (fst a) (fst ` set (completion_times st))"
  by (cases a) (clarsimp simp: pass_step_def Let_def keys_update split: option.splits)

lemma first_pass_keys:
  "first_pass P sol st = Inr st' \<Longrightarrow>
   fst ` set (completion_times st') = fst ` set (completion_times st) \<union> fst ` set sol"
  by (induction sol arbitrary: st) (auto split: sum.splits dest!: pass_step_keys)

lemma pass_step_distinct:
  "pass_step P a st = Inr st' \<Longrightarrow> distinct (map fst (completion_times st)) \<Longrightarrow>
   distinct (map fst (completion_times st'))"
  by (auto simp: pass_step_def Let_def distinct_update split: prod.splits option.splits)

lemma first_pass_distinct:
  "first_pass P sol st = Inr st' \<Longrightarrow> distinct (map fst (completion_times st)) \<Longrightarrow>
   distinct (map fst (completion_times st'))"
  by (induction sol arbitrary: st) (auto split: sum.splits dest: pass_step_distinct)

lemma pass_step_known:
  "pass_step P a st = Inr st' \<Longrightarrow> fst a \<in> fst ` set (tasks P)"
  by (auto simp: pass_step_def Let_def split: prod.splits option.splits
           dest!: map_of_SomeD intro: rev_image_eqI)

lemma first_pass_known:
  "first_pass P sol st = Inr st' \<Longrightarrow> fst ` set sol \<subseteq> fst ` set (tasks P)"
  by (induction sol arbitrary: st) (auto split: sum.splits dest!: pass_step_known)

lemma pass_step_ok:
  assumes "students_tracked P st" "fst a \<in> fst ` set (tasks P)"
    "fst (snd a) \<in> fst ` set (students P)"
  shows "\<exists>st'. pass_step P a st = Inr st' \<and> students_tracked P st'"
proof -
  obtain task_id student_id start_time where a: "a = (task_id, student_id, start_time)"
    by (cases a) auto
  from assms a obtain task where t: "map_of (tasks P) task_id = Some task"
    by (cases "map_of (tasks P) task_id") (auto simp: map_of_eq_None_iff)
  from assms a obtain w where w: "map_of (student_workloads st) student_id = Some w"
    by (cases "map_of (student_workloads st) student_id")
       (auto simp: map_of_eq_None_iff students_tracked_def)
  from assms a obtain tl where tl: "map_of (student_timelines st) student_id = Some tl"
    by (cases "map_of (student_timelines st) student_id")
       (auto simp: map_of_eq_None_iff students_tracked_def)
  from assms(1,3) show ?thesis
    by (simp add: pass_step_def a t w tl Let_def students_tracked_def keys_update insert_absorb)
qed

lemma first_pass_ok:
  "students_tracked P st \<Longrightarrow> references_known P sol \<Longrightarrow> \<exists>st'. first_pass P sol st = Inr st'"
proof (induction sol arbitrary: st)
  case Nil
  then show ?case by simp
next
  case (Cons a sol)
  from Cons.prems have "fst a \<in> fst ` set (tasks P)" "fst (snd a) \<in> fst ` set (students P)"
    by (force simp: references_known_def)+
  from pass_step_ok[OF Cons.prems(1) this] obtain st1 where
    "pass_step P a st = Inr st1" "students_tracked P st1" by blast
  with Cons.IH[of st1] Cons.prems(2) show ?case
    by (simp add: references_known_def)
qed

lemma initial_tracked: "students_tracked P (initial_pass_state P)"
  by (force simp: students_tracked_def initial_pass_state_def image_image split: prod.splits)

lemma missing_length:
  assumes d: "distinct (map fst (tasks P))" and t: "t \<in> fst ` set (tasks P)"
    and m: "t \<notin> fst ` set sol"
    and fp: "first_pass P sol (initial_pass_state P) = Inr st"
  shows "length (completion_times st) \<noteq> length (tasks P)"
proof -
  have keys: "fst ` set (completion_times st) = fst ` set sol"
    using first_pass_keys[OF fp] by (simp add: initial_pass_state_def)
  have dist: "distinct (map fst (completion_times st))"
    using first_pass_distinct[OF fp] by (simp add: initial_pass_state_def)
  have "fst ` set sol \<subset> fst ` set (tasks P)"
    using first_pass_known[OF fp] t m by blast
  then have "card (fst ` set sol) < card (fst ` set (tasks P))"
    by (simp add: psubset_card_mono)
  moreover have "card (fst ` set (tasks P)) = length (tasks P)"
    using distinct_card[OF d] by simp
  moreover have "card (fst ` set (completion_times st)) = length (completion_times st)"
    using distinct_card[OF dist] by simp
  ultimately show ?thesis using keys by simp
qed

lemmas fitness_eval_defs =
  calculate_fitness_def initial_pass_state_def pass_step_def fitness_of_pass_def
  total_task_duration_def time_penalty_def load_penalty_def weighted_sum_def py_div_def

text \<open>
  C1, the part that holds. If some task of the task table has no assignment in the
  solution, the evaluator never returns a finite fitness: it returns \<open>float('inf')\<close>,
  or raises \<open>KeyError\<close> when an assignment names a task or a student that is not in
  the tables. For a solution that names only known tasks and students the result is
  \<open>float('inf')\<close>. Nothing is said about a task that appears twice: line 37 compares
  the number of distinct tasks covered with the size of the task table.
\<close>

theorem calculate_fitness_missing_task:
  assumes "distinct (map fst (tasks P))" and "t \<in> fst ` set (tasks P)"
    and "t \<notin> fst ` set sol"
  shows "(calculate_fitness P sol = Inr PInf \<or> calculate_fitness P sol = Inl KeyError) \<and>
         (references_known P sol \<longrightarrow> calculate_fitness P sol = Inr PInf)"
proof (cases "first_pass P sol (initial_pass_state P)")
  case (Inl e)
  then have "e = KeyError" by (rule first_pass_error)
  moreover have "\<not> references_known P sol"
    using first_pass_ok[OF initial_tracked, of P sol] Inl by auto
  ultimately show ?thesis using Inl by (simp add: calculate_fitness_def)
next
  case (Inr st)
  from missing_length[OF assms Inr] show ?thesis
    by (simp add: calculate_fitness_def Inr fitness_of_pass_def Let_def)
qed


theorem calculate_fitness_missing_task_witness:
  "distinct (map fst (tasks chain_problem)) \<and> ''T2'' \<in> fst ` set (tasks chain_problem) \<and>
   ''T2'' \<notin> fst ` set [(''T1'', ''S1'', 0::real)] \<and>
   references_known chain_problem [(''T1'', ''S1'', 0)] \<and>
   calculate_fitness chain_problem [(''T1'', ''S1'', 0)] = Inr PInf"
proof -
  have h1: "distinct (map fst (tasks chain_problem))" by (simp add: chain_problem_def)
  have h2: "''T2'' \<in> fst ` set (tasks chain_problem)" by (simp add: chain_problem_def)
  have h3: "''T2'' \<notin> fst ` set [(''T1'', ''S1'', 0::real)]" by simp
  have h4: "references_known chain_problem [(''T1'', ''S1'', 0)]"
    by (simp add: references_known_def chain_problem_def)
  from calculate_fitness_missing_task[OF h1 h2 h3] h1 h2 h3 h4 show ?thesis by simp
qed

text \<open>
  C1 as stated fails for a duplicated task: the single task \<open>T1\<close> assigned twice
  covers the task table, and the fitness is the finite value 100.
\<close>

theorem calculate_fitness_duplicate_counterexample:
  "task_count [(''T1'', ''S1'', 0), (''T1'', ''S1'', 2)] ''T1'' = 2 \<and>
   calculate_fitness single_problem [(''T1'', ''S1'', 0), (''T1'', ''S1'', 2)] = Inr (Fin 100)"
  by (simp add: task_count_def fitness_eval_defs single_problem_def Let_def)

text \<open>
  C3. With a total task duration of zero the division of line 42 raises
  \<open>ZeroDivisionError\<close> before the guard of line 69 is reached; with no students the
  first pass raises \<open>KeyError\<close> at line 33. Neither call returns \<open>float('inf')\<close>.
\<close>

theorem calculate_fitness_degenerate_raises:
  "calculate_fitness zero_duration_problem [(''T1'', ''S1'', 0)] = Inl ZeroDivisionError \<and>
   calculate_fitness no_students_problem [(''T1'', ''S1'', 0)] = Inl KeyError"
  by (simp add: fitness_eval_defs zero_duration_problem_def no_students_problem_def Let_def)

text \<open>The evaluator does not raise on a solution that names known tasks and students.\<close>

lemma first_pass_invariant:
  assumes step: "\<And>a st st'. pass_step P a st = Inr st' \<Longrightarrow> I st \<Longrightarrow> I st'"
  shows "first_pass P sol st = Inr st' \<Longrightarrow> I st \<Longrightarrow> I st'"
proof (induction sol arbitrary: st)
  case Nil
  then show ?case by simp
next
  case (Cons a sol)
  from Cons.prems(1) obtain st1 where s: "pass_step P a st = Inr st1"
    and r: "first_pass P sol st1 = Inr st'"
    by (auto split: sum.splits)
  from step[OF s Cons.prems(2)] Cons.IH[OF r] show ?case by blast
qed

lemma pass_step_start_keys:
  "pass_step P a st = Inr st' \<Longrightarrow>
   fst ` set (start_times st) = fst ` set (completion_times st) \<Longrightarrow>
   fst ` set (start_times st') = fst ` set (completion_times st')"
  by (cases a) (clarsimp simp: pass_step_def Let_def keys_update split: option.splits)

lemma first_pass_start_keys:
  "first_pass P sol st = Inr st' \<Longrightarrow>
   fst ` set (start_times st) = fst ` set (completion_times st) \<Longrightarrow>
   fst ` set (start_times st') = fst ` set (completion_times st')"
  by (rule first_pass_invariant
        [where I = "\<lambda>st. fst ` set (start_times st) = fst ` set (completion_times st)"])
     (rule pass_step_start_keys)

lemma pass_step_tracked:
  assumes "pass_step P a st = Inr st'" and "students_tracked P st"
  shows "students_tracked P st'"
proof -
  obtain task_id student_id start_time where a: "a = (task_id, student_id, start_time)"
    by (cases a) auto
  from assms(1) a obtain task :: task and w timeline where
    "map_of (student_workloads st) student_id = Some w"
    "map_of (student_timelines st) student_id = Some timeline"
    and st': "st' = st\<lparr>completion_times :=
                        AList.update task_id (start_time + estimated_time task)
                          (completion_times st),
                      start_times := AList.update task_id start_time (start_times st),
                      student_workloads :=
                        AList.update student_id (w + estimated_time task)
                          (student_workloads st),
                      student_timelines :=
                        AList.update student_id
                          (timeline @ [(start_time, start_time + estimated_time task)])
                          (student_timelines st)\<rparr>"
    by (auto simp: pass_step_def Let_def split: option.splits)
  then have "student_id \<in> fst ` set (student_workloads st)"
    "student_id \<in> fst ` set (student_timelines st)"
    by (metis map_of_eq_None_iff option.distinct(1))+
  with assms(2) show ?thesis
    by (simp add: st' students_tracked_def keys_update insert_absorb)
qed

lemma first_pass_tracked:
  "first_pass P sol st = Inr st' \<Longrightarrow> students_tracked P st \<Longrightarrow> students_tracked P st'"
  by (rule first_pass_invariant[where I = "students_tracked P"]) (rule pass_step_tracked)

lemma dep_inner_no_raise:
  "D \<noteq> 0 \<Longrightarrow> task_id \<in> fst ` set stt \<Longrightarrow> \<exists>r. dep_inner D ct stt task_id deps p = Inr r"
proof (induction deps arbitrary: p)
  case Nil
  then show ?case by simp
next
  case (Cons dep_id deps)
  from Cons.prems(2) obtain s where "map_of stt task_id = Some s"
    by (cases "map_of stt task_id") (auto simp: map_of_eq_None_iff)
  with Cons show ?case
    by (simp add: py_div_def split: option.splits)
qed

lemma dep_penalty_no_raise:
  "D \<noteq> 0 \<Longrightarrow> fst ` set ts \<subseteq> fst ` set stt \<Longrightarrow> \<exists>r. dep_penalty D ct stt ts p = Inr r"
proof (induction ts arbitrary: p)
  case Nil
  then show ?case by simp
next
  case (Cons a ts)
  obtain task_id task where a: "a = (task_id, task)" by (cases a) auto
  from Cons.prems a have "task_id \<in> fst ` set stt" by auto
  from dep_inner_no_raise[OF Cons.prems(1) this, of ct "dependencies task" p]
  obtain r where r: "dep_inner D ct stt task_id (dependencies task) p = Inr r" by blast
  from Cons.prems have sub: "fst ` set ts \<subseteq> fst ` set stt" by auto
  show ?case
  proof (cases r)
    case None
    with r a show ?thesis by simp
  next
    case (Some q)
    with r a Cons.IH[OF Cons.prems(1) sub, of q] show ?thesis by simp
  qed
qed

lemma skill_penalty_no_raise:
  "references_known P sol \<Longrightarrow> \<exists>r. skill_penalty P sol p = Inr r"
proof (induction sol arbitrary: p)
  case Nil
  then show ?case by simp
next
  case (Cons a sol)
  obtain task_id student_id start_time where a: "a = (task_id, student_id, start_time)"
    by (cases a) auto
  from Cons.prems a have "task_id \<in> fst ` set (tasks P)" "student_id \<in> fst ` set (students P)"
    and rest: "references_known P sol"
    by (auto simp: references_known_def)
  then obtain task student where "map_of (tasks P) task_id = Some task"
    "map_of (students P) student_id = Some student"
    by (metis map_of_eq_None_iff option.exhaust)
  with a Cons.IH[OF rest] show ?case by simp
qed

lemma overlap_timeline_no_raise: "D \<noteq> 0 \<Longrightarrow> \<exists>r. overlap_timeline D timeline p = Inr r"
  by (induction D timeline p rule: overlap_timeline.induct) (auto simp: py_div_def)

lemma overlap_penalty_no_raise: "D \<noteq> 0 \<Longrightarrow> \<exists>r. overlap_penalty D tls p = Inr r"
proof (induction tls arbitrary: p)
  case Nil
  then show ?case by simp
next
  case (Cons a tls)
  obtain student_id timeline where a: "a = (student_id, timeline)" by (cases a) auto
  from overlap_timeline_no_raise[OF Cons.prems, of "sort timeline" p]
  obtain q where "overlap_timeline D (sort timeline) p = Inr q" by blast
  with a Cons.IH[OF Cons.prems, of q] show ?case by simp
qed

lemma py_max_no_raise: "xs \<noteq> [] \<Longrightarrow> \<exists>r. py_max xs = Inr r"
  by (cases xs) auto

lemma py_min_no_raise: "xs \<noteq> [] \<Longrightarrow> \<exists>r. py_min xs = Inr r"
  by (cases xs) auto

lemma calculate_fitness_total:
  assumes known: "references_known P sol" and D: "total_task_duration P \<noteq> 0"
    and dist: "distinct (map fst (tasks P))"
  shows "\<exists>f. calculate_fitness P sol = Inr f"
proof (cases "sol = []")
  case True
  then show ?thesis by (simp add: calculate_fitness_def)
next
  case False
  from first_pass_ok[OF initial_tracked known] obtain st where
    fp: "first_pass P sol (initial_pass_state P) = Inr st" by blast
  show ?thesis
  proof (cases "length (completion_times st) = length (tasks P)")
    case neq: False
    then show ?thesis
      using fp \<open>sol \<noteq> []\<close> by (simp add: calculate_fitness_def fitness_of_pass_def Let_def)
  next
    case eq: True
    have keys: "fst ` set (completion_times st) = fst ` set sol"
      using first_pass_keys[OF fp] by (simp add: initial_pass_state_def)
    have skeys: "fst ` set (start_times st) = fst ` set (completion_times st)"
      using first_pass_start_keys[OF fp] by (simp add: initial_pass_state_def)
    have cdist: "distinct (map fst (completion_times st))"
      using first_pass_distinct[OF fp] by (simp add: initial_pass_state_def)
    have sub: "fst ` set sol \<subseteq> fst ` set (tasks P)"
      using first_pass_known[OF fp] .
    have "card (fst ` set (completion_times st)) = card (fst ` set (tasks P))"
      using distinct_card[OF cdist] distinct_card[OF dist] eq by simp
    with sub keys have all: "fst ` set (completion_times st) = fst ` set (tasks P)"
      by (simp add: card_subset_eq)
    have tr: "students_tracked P st"
      using first_pass_tracked[OF fp initial_tracked] .
    from False keys have cne: "completion_times st \<noteq> []" by auto
    with skeys have sne: "start_times st \<noteq> []" by auto
    from False known have stne: "students P \<noteq> []"
      by (cases sol) (auto simp: references_known_def)
    with tr have wne: "student_workloads st \<noteq> []"
      by (auto simp: students_tracked_def)
    obtain max_c where mc: "py_max (map snd (completion_times st)) = Inr max_c"
      using py_max_no_raise[of "map snd (completion_times st)"] cne by auto
    obtain min_s where ms: "py_min (map snd (start_times st)) = Inr min_s"
      using py_min_no_raise[of "map snd (start_times st)"] sne by auto
    have tp: "time_penalty (total_task_duration P) st
                = Inr ((max_c - min_s) / total_task_duration P * 100)"
      using mc ms D by (simp add: time_penalty_def py_div_def)
    obtain dp where dp: "dep_penalty (total_task_duration P) (completion_times st)
        (start_times st) (tasks P) 0 = Inr dp"
      using dep_penalty_no_raise[OF D, of "tasks P" "start_times st" "completion_times st" 0]
        all skeys by auto
    obtain sp where sp: "skill_penalty P sol 0 = Inr sp"
      using skill_penalty_no_raise[OF known] by blast
    obtain mw where mw: "py_max (map snd (student_workloads st)) = Inr mw"
      using py_max_no_raise[of "map snd (student_workloads st)"] wne by auto
    obtain nw where nw: "py_min (map snd (student_workloads st)) = Inr nw"
      using py_min_no_raise[of "map snd (student_workloads st)"] wne by auto
    have "\<exists>l. load_penalty P (total_task_duration P) st = Inr l"
      using mw nw stne by (simp add: load_penalty_def py_div_def)
    then obtain lp where lp: "load_penalty P (total_task_duration P) st = Inr lp" by blast
    obtain ov where ov: "overlap_penalty (total_task_duration P) (student_timelines st) 0 = Inr ov"
      using overlap_penalty_no_raise[OF D] by blast
    show ?thesis
      using fp False eq tp dp sp lp ov
      by (cases dp) (simp_all add: calculate_fitness_def fitness_of_pass_def Let_def)
  qed
qed

















section \<open>Properties of the fitness cache\<close>

lemma engine_cache_consistent:
  "engine_cache P cache \<Longrightarrow> map_of cache s = Some f \<Longrightarrow> calculate_fitness P s = Inr f"
proof (induction arbitrary: s f rule: engine_cache.induct)
  case fresh
  then show ?case by simp
next
  case (after_get cache solution)
  then show ?case
    by (auto simp: get_fitness_def Let_def update_conv' split: option.splits sum.splits if_splits)
next
  case (after_clear cache)
  then show ?case by (simp add: clear_fitness_cache_def)
qed

text \<open>
  C8. Whatever calls of \<open>get_fitness\<close> and \<open>clear_fitness_cache\<close> came before, so
  whatever the cache holds, \<open>get_fitness\<close> returns (or raises) exactly what
  \<open>calculate_fitness\<close> returns (or raises) for the solution.
\<close>

theorem get_fitness_equals_calculate_fitness:
  "engine_cache P cache \<Longrightarrow> fst (get_fitness P cache solution) = calculate_fitness P solution"
proof (cases "map_of cache solution")
  case None
  then show ?thesis
    by (simp add: get_fitness_def split: sum.splits)
next
  case (Some f)
  assume "engine_cache P cache"
  from engine_cache_consistent[OF this Some] Some show ?thesis
    by (simp add: get_fitness_def)
qed

theorem get_fitness_equals_calculate_fitness_witness:
  "engine_cache single_problem
     (snd (get_fitness single_problem [] [(''T1'', ''S1'', 0)])) \<and>
   fst (get_fitness single_problem
          (snd (get_fitness single_problem [] [(''T1'', ''S1'', 0)])) [(''T1'', ''S1'', 0)])
     = calculate_fitness single_problem [(''T1'', ''S1'', 0)] \<and>
   snd (get_fitness single_problem [] [(''T1'', ''S1'', 0)])
     = [([(''T1'', ''S1'', 0)], Fin 100)]"
proof -
  have h: "engine_cache single_problem
     (snd (get_fitness single_problem [] [(''T1'', ''S1'', 0)]))"
    by (rule engine_cache.after_get) (rule engine_cache.fresh)
  have c: "snd (get_fitness single_problem [] [(''T1'', ''S1'', 0)])
     = [([(''T1'', ''S1'', 0)], Fin 100)]"
    by (simp add: get_fitness_def fitness_eval_defs single_problem_def Let_def)
  from get_fitness_equals_calculate_fitness[OF h] h c show ?thesis by simp
qed

section \<open>Properties of uniform crossover\<close>

lemma random_unit_nonneg: "\<not> random_unit rnd c < 0"
  by (simp add: random_unit_def not_less)

lemma random_unit_less_1: "random_unit rnd c < 1"
proof -
  have "rnd c mod 2 ^ 53 < (2::nat) ^ 53" by simp
  then have "real (rnd c mod 2 ^ 53) < 2 ^ 53"
    by (metis of_nat_less_iff of_nat_numeral of_nat_power)
  then show ?thesis by (simp add: random_unit_def)
qed

lemma uniform_loop_never:
  "uniform_loop rnd c 0 parent1 parent2 is child1 child2 = Inr (child1, child2, c + length is)"
  by (induction "is" arbitrary: c) (simp_all add: random_unit_nonneg)

lemma uniform_loop_always:
  "\<forall>i\<in>set is. i < length parent2 \<Longrightarrow>
   uniform_loop rnd c 1 parent1 parent2 is child1 child2 =
     Inr (fold (\<lambda>i ch. ch[i := parent2 ! i]) is child1,
          fold (\<lambda>i ch. ch[i := parent1 ! i]) is child2, c + length is)"
  by (induction "is" arbitrary: c child1 child2) (simp_all add: random_unit_less_1)

lemma fold_update_nth:
  "j < length ch \<Longrightarrow>
   fold (\<lambda>i ch. ch[i := f i]) is ch ! j = (if j \<in> set is then f j else ch ! j)"
  by (induction "is" arbitrary: ch) (auto simp: nth_list_update)

lemma fold_update_length [simp]: "length (fold (\<lambda>i ch. ch[i := f i]) is ch) = length ch"
  by (induction "is" arbitrary: ch) auto

lemma fold_update_all:
  "length ch = length xs \<Longrightarrow> fold (\<lambda>i ch. ch[i := xs ! i]) [0..<length xs] ch = xs"
  by (rule nth_equalityI) (simp_all add: fold_update_nth)

text \<open>
  C9. For parents of equal length, uniform crossover with swap probability 0 returns
  (parent1, parent2), and with swap probability 1 returns (parent2, parent1), whatever
  the random source draws.
\<close>

theorem uniform_crossover_extremes:
  "length parent1 = length parent2 \<Longrightarrow>
   uniform_crossover rnd c parent1 parent2 0 = Inr (parent1, parent2, c + length parent1) \<and>
   uniform_crossover rnd c parent1 parent2 1 = Inr (parent2, parent1, c + length parent1)"
proof -
  assume len: "length parent1 = length parent2"
  have a: "fold (\<lambda>i ch. ch[i := parent2 ! i]) [0..<length parent1] parent1 = parent2"
    using fold_update_all[of parent1 parent2] len by simp
  have b: "fold (\<lambda>i ch. ch[i := parent1 ! i]) [0..<length parent1] parent2 = parent1"
    using fold_update_all[of parent2 parent1] len by simp
  show ?thesis
    by (simp add: uniform_crossover_def uniform_loop_never uniform_loop_always len[symmetric] a b)
qed

theorem uniform_crossover_extremes_witness:
  "length [(''T1'', ''S1'', 0::real), (''T2'', ''S2'', 2)]
     = length [(''T2'', ''S1'', 0::real), (''T1'', ''S1'', 3)] \<and>
   uniform_crossover (\<lambda>i. 3 * i) 0 [(''T1'', ''S1'', 0), (''T2'', ''S2'', 2)]
      [(''T2'', ''S1'', 0), (''T1'', ''S1'', 3)] 0
     = Inr ([(''T1'', ''S1'', 0), (''T2'', ''S2'', 2)],
            [(''T2'', ''S1'', 0), (''T1'', ''S1'', 3)], 2) \<and>
   uniform_crossover (\<lambda>i. 3 * i) 0 [(''T1'', ''S1'', 0), (''T2'', ''S2'', 2)]
      [(''T2'', ''S1'', 0), (''T1'', ''S1'', 3)] 1
     = Inr ([(''T2'', ''S1'', 0), (''T1'', ''S1'', 3)],
            [(''T1'', ''S1'', 0), (''T2'', ''S2'', 2)], 2)"
  using uniform_crossover_extremes[of "[(''T1'', ''S1'', 0), (''T2'', ''S2'', 2)]"
      "[(''T2'', ''S1'', 0), (''T1'', ''S1'', 3)]" "\<lambda>i. 3 * i" 0]
  by simp

section \<open>Properties of mutation\<close>

lemma map_fst_update_same2:
  assumes "map fst m1 = map fst m" and "fst x = fst (m ! i)"
  shows "map fst (m1[i := x]) = map fst m"
proof (cases "i < length m")
  case True
  from assms(1) have len: "length m1 = length m"
    by (metis length_map)
  have "fst (m1 ! i) = map fst m1 ! i"
    using True len by simp
  also have "\<dots> = fst (m ! i)"
    using True assms(1) by simp
  finally have "(map fst m1)[i := fst x] = map fst m1"
    using assms(2) True len by (simp add: list_update_same_conv)
  then show ?thesis
    using assms(1) by (simp add: map_update)
next
  case False
  from assms(1) have "length m1 = length m"
    by (metis length_map)
  with False have "length m1 \<le> i" by linarith
  then have "m1[i := x] = m1" by (rule list_update_beyond)
  then show ?thesis by (simp only: assms(1))
qed

lemma map_fst_update_same:
  "fst x = fst (m ! i) \<Longrightarrow> map fst (m[i := x]) = map fst m"
  by (rule map_fst_update_same2) simp_all

lemma shift_one_tasks: "map fst (shift_one shift i m) = map fst m"
  by (simp add: shift_one_def map_fst_update_same split: prod.splits)

lemma fold_shift_one_tasks: "map fst (fold (shift_one shift) is m) = map fst m"
  by (induction "is" arbitrary: m) (simp_all add: shift_one_tasks)

lemma mutation_step_tasks:
  assumes "mutation_step P rnd g mg t (m, c) = Inr (m', c')"
  shows "map fst m' = map fst m"
proof (cases "mutation_types ! choices_index rnd c (mutation_weights t)")
  case Reassign
  with assms show ?thesis
    by (auto simp: mutation_step_def Let_def map_fst_update_same
             split: sum.splits prod.splits)
next
  case AdjustTime
  with assms show ?thesis
    by (auto simp: mutation_step_def Let_def map_fst_update_same
             split: sum.splits prod.splits option.splits)
next
  case SwapTasks
  with assms show ?thesis
    by (auto simp: mutation_step_def Let_def map_fst_update_same map_fst_update_same2
             split: sum.splits prod.splits if_splits)
next
  case ShiftSchedule
  with assms show ?thesis
    by (auto simp: mutation_step_def Let_def fold_shift_one_tasks
             split: sum.splits prod.splits if_splits)
qed

lemma iterate_err_invariant:
  assumes step: "\<And>s s'. body s = Inr s' \<Longrightarrow> I s \<Longrightarrow> I s'"
  shows "iterate_err n body s = Inr s' \<Longrightarrow> I s \<Longrightarrow> I s'"
  by (induction n arbitrary: s) (auto split: sum.splits dest: step)

lemma iterate_err_total:
  assumes step: "\<And>s. I s \<Longrightarrow> \<exists>s'. body s = Inr s' \<and> I s'"
  shows "I s \<Longrightarrow> \<exists>s'. iterate_err n body s = Inr s' \<and> I s'"
proof (induction n arbitrary: s)
  case 0
  then show ?case by simp
next
  case (Suc n)
  from step[OF Suc.prems] obtain s1 where "body s = Inr s1" "I s1" by blast
  with Suc.IH[of s1] show ?case by simp
qed

lemma randint_position: "m \<noteq> [] \<Longrightarrow> randint rnd c 0 (length m - 1) < length m"
  by (cases m) (simp_all add: randint_def)

lemma choice_ok: "xs \<noteq> [] \<Longrightarrow> \<exists>x. choice rnd c xs = Inr x"
  by (simp add: choice_def)

lemma get_suitable_student_ok:
  assumes "task_id \<in> fst ` set (tasks P)" and "students P \<noteq> []"
  shows "\<exists>s. get_suitable_student P rnd c task_id = Inr s"
proof -
  from assms(1) obtain task where "map_of (tasks P) task_id = Some task"
    by (cases "map_of (tasks P) task_id") (auto simp: map_of_eq_None_iff)
  with assms(2) show ?thesis
    by (simp add: get_suitable_student_def Let_def choice_ok)
qed

lemma mutation_step_ok:
  assumes mg: "mg \<noteq> 0" and st: "students P \<noteq> []" and ne: "m \<noteq> []"
    and known: "fst ` set m \<subseteq> fst ` set (tasks P)"
  shows "\<exists>m' c'. mutation_step P rnd g mg t (m, c) = Inr (m', c')"
proof -
  from mg have d: "py_div (real_of_int g) (real_of_int mg) = Inr (real_of_int g / real_of_int mg)"
    by (simp add: py_div_def)
  define pos where "pos = randint rnd (c + 1) 0 (length m - 1)"
  have pos: "pos < length m"
    unfolding pos_def using ne by (rule randint_position)
  obtain task_id student_id start_time where p: "m ! pos = (task_id, student_id, start_time)"
    by (cases "m ! pos") auto
  have "fst (m ! pos) \<in> fst ` set (tasks P)"
    using known pos by (meson image_eqI nth_mem subsetD)
  with p have k: "task_id \<in> fst ` set (tasks P)" by simp
  then obtain task where task: "map_of (tasks P) task_id = Some task"
    by (cases "map_of (tasks P) task_id") (auto simp: map_of_eq_None_iff)
  from get_suitable_student_ok[OF k st] obtain s where
    s: "get_suitable_student P rnd (c + 2) task_id = Inr s" by blast
  show ?thesis
  proof (cases "mutation_types ! choices_index rnd c (mutation_weights t)")
    case Reassign
    then show ?thesis
      using d p[unfolded pos_def] s by (simp add: mutation_step_def Let_def)
  next
    case AdjustTime
    then show ?thesis
      using d p[unfolded pos_def] task by (simp add: mutation_step_def Let_def)
  next
    case SwapTasks
    then show ?thesis
      using d by (simp add: mutation_step_def split: prod.splits)
  next
    case ShiftSchedule
    then show ?thesis
      using d by (simp add: mutation_step_def Let_def)
  qed
qed

text \<open>
  C10, as the code has it. Whenever \<open>mutate\<close> returns on a non-empty solution, the
  result is a list of the same length that carries, position by position, the task
  identifiers of the input. It does return when \<open>max_generations\<close> is not zero, the
  student table is not empty and every assignment names a task of the task table;
  otherwise line 37 (\<open>generation / max_generations\<close>) or a table lookup may raise.
\<close>

theorem mutate_preserves_tasks:
  assumes "solution \<noteq> []"
  shows "(\<forall>r c'. mutate P rnd c solution g mg t = Inr (r, c') \<longrightarrow>
            (\<exists>mutated. r = Some mutated \<and> length mutated = length solution \<and>
               (\<forall>i < length solution. fst (mutated ! i) = fst (solution ! i)))) \<and>
         (mg \<noteq> 0 \<and> students P \<noteq> [] \<and> fst ` set solution \<subseteq> fst ` set (tasks P) \<longrightarrow>
            (\<exists>mutated c'. mutate P rnd c solution g mg t = Inr (Some mutated, c')))"
proof (intro conjI allI impI)
  fix r c'
  assume r: "mutate P rnd c solution g mg t = Inr (r, c')"
  with assms obtain mutated where
    it: "iterate_err (num_mutations (length solution) t) (mutation_step P rnd g mg t)
           (solution, c) = Inr (mutated, c')" and rm: "r = Some mutated"
    by (auto simp: mutate_def split: sum.splits)
  have "map fst (fst (mutated, c')) = map fst solution"
  proof (rule iterate_err_invariant[OF _ it])
    fix s s' :: "solution \<times> nat"
    assume "mutation_step P rnd g mg t s = Inr s'" "map fst (fst s) = map fst solution"
    then show "map fst (fst s') = map fst solution"
      using mutation_step_tasks[of P rnd g mg t "fst s" "snd s" "fst s'" "snd s'"] by simp
  qed simp
  then have eq: "map fst mutated = map fst solution" by simp
  then have len: "length mutated = length solution"
    by (metis length_map)
  have "\<forall>i < length solution. fst (mutated ! i) = fst (solution ! i)"
  proof (intro allI impI)
    fix i assume i: "i < length solution"
    then have "fst (mutated ! i) = map fst mutated ! i" using len by simp
    also have "\<dots> = fst (solution ! i)" using i eq by simp
    finally show "fst (mutated ! i) = fst (solution ! i)" .
  qed
  with rm len show "\<exists>mutated. r = Some mutated \<and> length mutated = length solution \<and>
               (\<forall>i < length solution. fst (mutated ! i) = fst (solution ! i))"
    by blast
next
  assume pre: "mg \<noteq> 0 \<and> students P \<noteq> [] \<and> fst ` set solution \<subseteq> fst ` set (tasks P)"
  let ?I = "\<lambda>s :: solution \<times> nat. map fst (fst s) = map fst solution"
  have "\<exists>s'. iterate_err (num_mutations (length solution) t) (mutation_step P rnd g mg t)
           (solution, c) = Inr s' \<and> ?I s'"
  proof (rule iterate_err_total[where I = ?I])
    fix s :: "solution \<times> nat"
    assume I: "map fst (fst s) = map fst solution"
    then have "set (map fst (fst s)) = set (map fst solution)" by simp
    then have known: "fst ` set (fst s) \<subseteq> fst ` set (tasks P)" using pre by simp
    from I assms have ne: "fst s \<noteq> []" by auto
    from mutation_step_ok[OF _ _ ne known, of mg rnd g t "snd s"] pre
    obtain m' c' where step: "mutation_step P rnd g mg t s = Inr (m', c')" by auto
    from mutation_step_tasks[of P rnd g mg t "fst s" "snd s" m' c'] step I
    have "map fst m' = map fst solution" by simp
    with step show "\<exists>s'. mutation_step P rnd g mg t s = Inr s' \<and> map fst (fst s') = map fst solution"
      by simp
  qed simp
  then obtain mutated c' where
    "iterate_err (num_mutations (length solution) t) (mutation_step P rnd g mg t)
           (solution, c) = Inr (mutated, c')" by auto
  with assms show "\<exists>mutated c'. mutate P rnd c solution g mg t = Inr (Some mutated, c')"
    by (simp add: mutate_def)
qed

lemmas mutation_eval_defs =
  mutate_def num_mutations_def py_int_def mutation_step_def py_div_def mutation_types_def
  mutation_weights_def choices_index_def random_unit_def randint_def uniform_def choice_def
  sample2_def get_suitable_student_def shift_one_def

theorem mutate_preserves_tasks_witness:
  "[(''T1'', ''S1'', 0::real), (''T2'', ''S2'', 2)] \<noteq> [] \<and> (100::int) \<noteq> 0 \<and>
   students chain_problem \<noteq> [] \<and>
   fst ` set [(''T1'', ''S1'', 0::real), (''T2'', ''S2'', 2)] \<subseteq> fst ` set (tasks chain_problem) \<and>
   (\<exists>mutated c'.
      mutate chain_problem (\<lambda>i. 7 * i + 3) 0 [(''T1'', ''S1'', 0), (''T2'', ''S2'', 2)] 0 100 1
        = Inr (Some mutated, c') \<and>
      length mutated = 2 \<and> fst (mutated ! 0) = ''T1'' \<and> fst (mutated ! 1) = ''T2'') \<and>
   mutate chain_problem (\<lambda>i. 7 * i + 3) 0 [(''T1'', ''S1'', 0), (''T2'', ''S2'', 2)] 0 100 1
     = Inr (Some [(''T1'', ''S2'', 0), (''T2'', ''S2'', 2)], 3)"
proof -
  let ?sol = "[(''T1'', ''S1'', 0::real), (''T2'', ''S2'', 2)]"
  have h1: "?sol \<noteq> []" by simp
  have h2: "(100::int) \<noteq> 0 \<and> students chain_problem \<noteq> [] \<and>
            fst ` set ?sol \<subseteq> fst ` set (tasks chain_problem)"
    by (simp add: chain_problem_def)
  note inst = mutate_preserves_tasks[OF h1, of chain_problem "\<lambda>i. 7 * i + 3" 0 0 100 1]
  from inst h2 obtain mutated c' where
    r: "mutate chain_problem (\<lambda>i. 7 * i + 3) 0 ?sol 0 100 1 = Inr (Some mutated, c')"
    by blast
  with inst have "length mutated = length ?sol \<and>
      (\<forall>i < length ?sol. fst (mutated ! i) = fst (?sol ! i))"
    by auto
  then have "length mutated = 2 \<and> fst (mutated ! 0) = ''T1'' \<and> fst (mutated ! 1) = ''T2''"
    by simp
  with r have ex: "\<exists>mutated c'.
      mutate chain_problem (\<lambda>i. 7 * i + 3) 0 ?sol 0 100 1 = Inr (Some mutated, c') \<and>
      length mutated = 2 \<and> fst (mutated ! 0) = ''T1'' \<and> fst (mutated ! 1) = ''T2''"
    by blast
  have ev: "mutate chain_problem (\<lambda>i. 7 * i + 3) 0 ?sol 0 100 1
     = Inr (Some [(''T1'', ''S2'', 0), (''T2'', ''S2'', 2)], 3)"
    by (simp add: mutation_eval_defs chain_problem_def Let_def
          numeral_2_eq_2[symmetric] numeral_3_eq_3[symmetric])
  from h1 h2 ex ev show ?thesis by blast
qed

text \<open>
  C10 as stated fails for \<open>max_generations = 0\<close>: line 37 divides by it and the call
  raises instead of returning a list.
\<close>

theorem mutate_zero_generations_counterexample:
  "mutate chain_problem (\<lambda>i. 7 * i + 3) 0 [(''T1'', ''S1'', 0), (''T2'', ''S2'', 2)] 0 0 1
     = Inl ZeroDivisionError"
  by (simp add: mutation_eval_defs chain_problem_def Let_def
        numeral_2_eq_2[symmetric] numeral_3_eq_3[symmetric])





section \<open>Properties of local search\<close>

lemma references_known_update:
  assumes "references_known P sol" and "t \<in> fst ` set (tasks P)" and "s \<in> fst ` set (students P)"
  shows "references_known P (sol[i := (t, s, x)])"
proof -
  have "set (sol[i := (t, s, x)]) \<subseteq> insert (t, s, x) (set sol)"
    by (rule set_update_subset_insert)
  with assms show ?thesis
    by (auto simp: references_known_def list_all_iff)
qed

lemma references_known_nth:
  "references_known P sol \<Longrightarrow> i < length sol \<Longrightarrow> sol ! i = (t, s, x) \<Longrightarrow>
   t \<in> fst ` set (tasks P) \<and> s \<in> fst ` set (students P)"
  by (force simp: references_known_def list_all_length)

lemma references_known_students: "references_known P sol \<Longrightarrow> sol \<noteq> [] \<Longrightarrow> students P \<noteq> []"
  by (cases sol) (auto simp: references_known_def)

lemma choice_member: "choice rnd c xs = Inr x \<Longrightarrow> x \<in> set xs"
  by (auto simp: choice_def split: if_splits)

lemma sample2_range:
  assumes "2 \<le> n" and "sample2 rnd c n = (i, j)"
  shows "i < n \<and> j < n"
proof -
  from assms(1) have a: "rnd c mod n < n" by simp
  from assms(1) have b: "rnd (Suc c) mod (n - 1) < n - 1" by simp
  then have b': "Suc (rnd (Suc c) mod (n - 1)) < n" "rnd (Suc c) mod (n - 1) < n" by linarith+
  from assms(2) have "i = rnd c mod n"
    and "j = Suc (rnd (Suc c) mod (n - 1)) \<or> j = rnd (Suc c) mod (n - 1)"
    by (auto simp: sample2_def Let_def split: if_splits)
  with a b' show ?thesis by auto
qed

lemma ls_try_reassignment_ok:
  assumes "references_known P sol"
  shows "\<exists>sol' c'. ls_try_reassignment P rnd c sol = Inr (sol', c') \<and> references_known P sol'"
proof (cases "sol = []")
  case True
  with assms show ?thesis by (simp add: ls_try_reassignment_def)
next
  case False
  define idx where "idx = randint rnd c 0 (length sol - 1)"
  have idx: "idx < length sol" unfolding idx_def using False by (rule randint_position)
  obtain t s x where n: "sol ! idx = (t, s, x)" by (cases "sol ! idx") auto
  from references_known_nth[OF assms idx n] have t: "t \<in> fst ` set (tasks P)" by simp
  from references_known_students[OF assms False] have "map fst (students P) \<noteq> []" by simp
  from choice_ok[OF this] obtain s' where c: "choice rnd (c + 1) (map fst (students P)) = Inr s'"
    by blast
  from choice_member[OF c] have "s' \<in> fst ` set (students P)" by simp
  from references_known_update[OF assms t this]
  have rk: "references_known P (sol[idx := (t, s', x)])" .
  from False n[unfolded idx_def] c rk[unfolded idx_def] show ?thesis
    by (simp add: ls_try_reassignment_def Let_def)
qed

lemma ls_try_time_adjustment_ok:
  assumes "references_known P sol"
  shows "\<exists>sol' c'. ls_try_time_adjustment P rnd c sol = Inr (sol', c') \<and> references_known P sol'"
proof (cases "sol = []")
  case True
  with assms show ?thesis by (simp add: ls_try_time_adjustment_def)
next
  case False
  define idx where "idx = randint rnd c 0 (length sol - 1)"
  have idx: "idx < length sol" unfolding idx_def using False by (rule randint_position)
  obtain t s x where n: "sol ! idx = (t, s, x)" by (cases "sol ! idx") auto
  from references_known_nth[OF assms idx n]
  have t: "t \<in> fst ` set (tasks P)" and s: "s \<in> fst ` set (students P)" by simp_all
  from t obtain task where task: "map_of (tasks P) t = Some task"
    by (cases "map_of (tasks P) t") (auto simp: map_of_eq_None_iff)
  from references_known_update[OF assms t s]
  have rk: "\<And>y. references_known P (sol[idx := (t, s, y)])" .
  from False n[unfolded idx_def] task rk[unfolded idx_def] show ?thesis
    by (simp add: ls_try_time_adjustment_def Let_def)
qed

lemma ls_try_task_swap_ok:
  assumes "references_known P sol"
  shows "\<exists>sol' c'. ls_try_task_swap rnd c sol = Inr (sol', c') \<and> references_known P sol'"
proof (cases "length sol < 2")
  case True
  with assms show ?thesis by (simp add: ls_try_task_swap_def)
next
  case False
  obtain i j where ij: "sample2 rnd c (length sol) = (i, j)" by (cases "sample2 rnd c (length sol)") auto
  with False sample2_range[of "length sol" rnd c i j] have i: "i < length sol" and j: "j < length sol"
    by simp_all
  obtain t1 s1 x1 where n1: "sol ! i = (t1, s1, x1)" by (cases "sol ! i") auto
  obtain t2 s2 x2 where n2: "sol ! j = (t2, s2, x2)" by (cases "sol ! j") auto
  from references_known_nth[OF assms i n1] references_known_nth[OF assms j n2]
  have k: "t1 \<in> fst ` set (tasks P)" "s1 \<in> fst ` set (students P)"
    "t2 \<in> fst ` set (tasks P)" "s2 \<in> fst ` set (students P)" by simp_all
  have "references_known P (sol[i := (t1, s2, x1), j := (t2, s1, x2)])"
    by (intro references_known_update assms k)
  with False ij n1 n2 show ?thesis
    by (simp add: ls_try_task_swap_def)
qed

lemma ls_consider_cases:
  "ls_consider new_solution new_fitness (st, improved) = (st', improved') \<Longrightarrow>
   (st' = st \<and> improved' = improved) \<or>
   (new_fitness < ls_best_fitness st \<and> improved' \<and> ls_best_fitness st' = new_fitness \<and>
    ls_best_solution st' = new_solution \<and> ls_current_solution st' = new_solution)"
  by (auto simp: ls_consider_def split: if_splits)

lemma ls_consider_le:
  "ls_best_fitness (fst (ls_consider new_solution new_fitness s)) \<le> ls_best_fitness (fst s)"
  by (cases s) (simp add: ls_consider_def less_imp_le)

lemma ls_move_le:
  "ls_move P move s = Inr s' \<Longrightarrow> ls_best_fitness (fst s') \<le> ls_best_fitness (fst s)"
proof -
  assume m: "ls_move P move s = Inr s'"
  obtain st improved where s: "s = (st, improved)" by (cases s) auto
  from m s obtain new_solution c' new_fitness where
    "s' = ls_consider new_solution new_fitness (st\<lparr>ls_cursor := c'\<rparr>, improved)"
    by (auto simp: ls_move_def split: sum.splits prod.splits)
  with ls_consider_le[of new_solution new_fitness "(st\<lparr>ls_cursor := c'\<rparr>, improved)"] s
  show ?thesis by simp
qed

lemma ls_iteration_le:
  assumes "ls_iteration P rnd st = Inr st'"
  shows "ls_best_fitness st' \<le> ls_best_fitness st"
proof -
  from assms obtain s1 s2 st3 improved where
    m1: "ls_move P (ls_try_reassignment P rnd) (st, False) = Inr s1" and
    m2: "ls_move P (ls_try_time_adjustment P rnd) s1 = Inr s2" and
    m3: "ls_move P (ls_try_task_swap rnd) s2 = Inr (st3, improved)" and
    st': "st' = st3\<lparr>ls_no_improve_counter :=
                     (if \<not> improved then ls_no_improve_counter st3 + 1 else 0)\<rparr>"
    by (auto simp: ls_iteration_def split: sum.splits prod.splits)
  from ls_move_le[OF m1] ls_move_le[OF m2] ls_move_le[OF m3] st' show ?thesis
    by simp
qed

lemma ls_loop_le:
  "ls_loop P rnd n max_no_improve st = Inr st' \<Longrightarrow> ls_best_fitness st' \<le> ls_best_fitness st"
proof (induction n arbitrary: st)
  case 0
  then show ?case by simp
next
  case (Suc n)
  from Suc.prems obtain st1 where it: "ls_iteration P rnd st = Inr st1"
    and r: "st' = st1 \<or> ls_loop P rnd n max_no_improve st1 = Inr st'"
    by (auto split: sum.splits if_splits)
  from ls_iteration_le[OF it] r Suc.IH[of st1] show ?case
    by auto
qed

lemma ls_trace_hd: "ls_trace P rnd n max_no_improve st = Inr states \<Longrightarrow> states \<noteq> [] \<and> hd states = st"
  by (cases n) (auto split: sum.splits if_splits)

lemma ls_trace_sorted:
  "ls_trace P rnd n max_no_improve st = Inr states \<Longrightarrow>
   sorted_wrt (\<lambda>a b. ls_best_fitness b \<le> ls_best_fitness a) states \<and>
   (\<forall>s \<in> set states. ls_best_fitness s \<le> ls_best_fitness st)"
proof (induction n arbitrary: st states)
  case 0
  then show ?case by auto
next
  case (Suc n)
  from Suc.prems obtain st1 where it: "ls_iteration P rnd st = Inr st1"
    and r: "states = [st, st1] \<or>
            (\<exists>rest. ls_trace P rnd n max_no_improve st1 = Inr rest \<and> states = st # rest)"
    by (auto split: sum.splits if_splits)
  note le = ls_iteration_le[OF it]
  from r show ?case
  proof
    assume "states = [st, st1]"
    with le show ?thesis by simp
  next
    assume "\<exists>rest. ls_trace P rnd n max_no_improve st1 = Inr rest \<and> states = st # rest"
    then obtain rest where t: "ls_trace P rnd n max_no_improve st1 = Inr rest"
      and s: "states = st # rest" by blast
    from Suc.IH[OF t] le s show ?thesis
      by (auto intro: order_trans)
  qed
qed

lemma ls_loop_trace:
  "ls_loop P rnd n max_no_improve st =
     (case ls_trace P rnd n max_no_improve st of
        Inl e \<Rightarrow> Inl e
      | Inr states \<Rightarrow> Inr (last states))"
proof (induction n arbitrary: st)
  case 0
  then show ?case by simp
next
  case (Suc n)
  show ?case
  proof (cases "ls_iteration P rnd st")
    case (Inl e)
    then show ?thesis by simp
  next
    case (Inr st1)
    show ?thesis
    proof (cases "int (ls_no_improve_counter st1) \<ge> max_no_improve")
      case True
      with Inr show ?thesis by simp
    next
      case False
      show ?thesis
      proof (cases "ls_trace P rnd n max_no_improve st1")
        case (Inl e)
        with Inr False Suc.IH[of st1] show ?thesis by simp
      next
        case states: (Inr states)
        with ls_trace_hd[OF states] Inr False Suc.IH[of st1] show ?thesis by simp
      qed
    qed
  qed
qed

lemma ls_move_ok:
  assumes mv: "\<And>c sol. references_known P sol \<Longrightarrow>
                  \<exists>sol' c'. move c sol = Inr (sol', c') \<and> references_known P sol'"
    and D: "total_task_duration P \<noteq> 0" and dist: "distinct (map fst (tasks P))"
    and inv: "ls_inv P s"
  shows "\<exists>s'. ls_move P move s = Inr s' \<and> ls_inv P s'"
proof -
  obtain st improved where s: "s = (st, improved)" by (cases s) auto
  from inv s have "references_known P (ls_current_solution st)" by (simp add: ls_inv_def)
  from mv[OF this, of "ls_cursor st"] obtain sol' c' where
    t: "move (ls_cursor st) (ls_current_solution st) = Inr (sol', c')"
    and k: "references_known P sol'" by blast
  from calculate_fitness_total[OF k D dist] obtain f where f: "calculate_fitness P sol' = Inr f"
    by blast
  have "ls_inv P (ls_consider sol' f (st\<lparr>ls_cursor := c'\<rparr>, improved))"
    using inv s k by (simp add: ls_inv_def ls_consider_def)
  with t f s show ?thesis by (simp add: ls_move_def)
qed

lemma ls_iteration_ok:
  assumes D: "total_task_duration P \<noteq> 0" and dist: "distinct (map fst (tasks P))"
    and inv: "references_known P (ls_current_solution st)"
  shows "\<exists>st'. ls_iteration P rnd st = Inr st' \<and> references_known P (ls_current_solution st')"
proof -
  from inv have i0: "ls_inv P (st, False)" by (simp add: ls_inv_def)
  have "\<exists>s'. ls_move P (ls_try_reassignment P rnd) (st, False) = Inr s' \<and> ls_inv P s'"
    by (rule ls_move_ok[OF _ D dist i0]) (rule ls_try_reassignment_ok)
  then obtain s1 where
    m1: "ls_move P (ls_try_reassignment P rnd) (st, False) = Inr s1" and i1: "ls_inv P s1"
    by blast
  have "\<exists>s'. ls_move P (ls_try_time_adjustment P rnd) s1 = Inr s' \<and> ls_inv P s'"
    by (rule ls_move_ok[OF _ D dist i1]) (rule ls_try_time_adjustment_ok)
  then obtain s2 where
    m2: "ls_move P (ls_try_time_adjustment P rnd) s1 = Inr s2" and i2: "ls_inv P s2"
    by blast
  have "\<exists>s'. ls_move P (ls_try_task_swap rnd) s2 = Inr s' \<and> ls_inv P s'"
    by (rule ls_move_ok[OF _ D dist i2]) (rule ls_try_task_swap_ok)
  then obtain s3 where
    m3: "ls_move P (ls_try_task_swap rnd) s2 = Inr s3" and i3: "ls_inv P s3"
    by blast
  obtain st3 improved where s3: "s3 = (st3, improved)" by (cases s3) auto
  with m1 m2 m3 i3 show ?thesis
    by (simp add: ls_iteration_def ls_inv_def)
qed

lemma ls_loop_ok:
  assumes D: "total_task_duration P \<noteq> 0" and dist: "distinct (map fst (tasks P))"
  shows "references_known P (ls_current_solution st) \<Longrightarrow>
         \<exists>st'. ls_loop P rnd n max_no_improve st = Inr st'"
proof (induction n arbitrary: st)
  case 0
  then show ?case by simp
next
  case (Suc n)
  from ls_iteration_ok[OF D dist Suc.prems, of rnd] obtain st1 where
    "ls_iteration P rnd st = Inr st1" "references_known P (ls_current_solution st1)" by blast
  with Suc.IH[of st1] show ?case by simp
qed

lemmas local_search_eval_defs =
  ls_improve_solution_def ls_iteration_def ls_move_def ls_consider_def
  ls_try_reassignment_def ls_try_time_adjustment_def ls_try_task_swap_def
  random_unit_def randint_def uniform_def choice_def sample2_def less_fitness_def

lemma ls_example_run:
  "ls_improve_solution chain_problem (\<lambda>i. 1) 0 [(''T1'', ''S1'', 0), (''T2'', ''S1'', 0)] 1 5
     = Inr ([(''T1'', ''S1'', 0), (''T2'', ''S2'', 0)], Fin 860, 6)"
  by (simp add: local_search_eval_defs fitness_eval_defs chain_problem_def Let_def
        numeral_2_eq_2[symmetric] numeral_3_eq_3[symmetric])

text \<open>
  C7. A candidate replaces the best (and the current) solution only when its fitness
  is strictly below the best fitness so far; the best-fitness values of the states
  after each iteration never increase; and whenever \<open>improve_solution\<close> returns, the
  fitness it returns is at most the fitness of the input solution. It does return
  when the solution names only known tasks and students, the task table has distinct
  keys and the total task duration is not zero.
\<close>

theorem local_search_never_regresses:
  "(ls_consider new_solution new_fitness (st, improved) = (st1, improved1) \<longrightarrow>
      (st1 = st \<and> improved1 = improved) \<or>
      (new_fitness < ls_best_fitness st \<and> improved1 \<and> ls_best_fitness st1 = new_fitness \<and>
       ls_best_solution st1 = new_solution \<and> ls_current_solution st1 = new_solution)) \<and>
   (ls_trace P rnd n max_no_improve st = Inr states \<longrightarrow>
      sorted_wrt (\<lambda>a b. ls_best_fitness b \<le> ls_best_fitness a) states) \<and>
   ls_loop P rnd n max_no_improve st =
     (case ls_trace P rnd n max_no_improve st of
        Inl e \<Rightarrow> Inl e
      | Inr states \<Rightarrow> Inr (last states)) \<and>
   (ls_improve_solution P rnd c solution max_iterations max_no_improve = Inr (best, f, c') \<longrightarrow>
      (\<exists>f0. calculate_fitness P solution = Inr f0 \<and> f \<le> f0)) \<and>
   (references_known P solution \<and> total_task_duration P \<noteq> 0 \<and> distinct (map fst (tasks P)) \<longrightarrow>
      (\<exists>best f c'.
         ls_improve_solution P rnd c solution max_iterations max_no_improve = Inr (best, f, c')))"
proof (intro conjI impI)
  assume "ls_consider new_solution new_fitness (st, improved) = (st1, improved1)"
  then show "(st1 = st \<and> improved1 = improved) \<or>
      (new_fitness < ls_best_fitness st \<and> improved1 \<and> ls_best_fitness st1 = new_fitness \<and>
       ls_best_solution st1 = new_solution \<and> ls_current_solution st1 = new_solution)"
    by (rule ls_consider_cases)
next
  assume "ls_trace P rnd n max_no_improve st = Inr states"
  then show "sorted_wrt (\<lambda>a b. ls_best_fitness b \<le> ls_best_fitness a) states"
    using ls_trace_sorted by blast
next
  show "ls_loop P rnd n max_no_improve st =
     (case ls_trace P rnd n max_no_improve st of
        Inl e \<Rightarrow> Inl e
      | Inr states \<Rightarrow> Inr (last states))"
    by (rule ls_loop_trace)
next
  assume r: "ls_improve_solution P rnd c solution max_iterations max_no_improve = Inr (best, f, c')"
  then obtain f0 st' where f0: "calculate_fitness P solution = Inr f0"
    and l: "ls_loop P rnd (nat max_iterations) max_no_improve
              \<lparr>ls_best_solution = solution, ls_best_fitness = f0,
               ls_current_solution = solution, ls_no_improve_counter = 0,
               ls_cursor = c\<rparr> = Inr st'"
    and f: "f = ls_best_fitness st'"
    by (auto simp: ls_improve_solution_def split: sum.splits)
  from ls_loop_le[OF l] f0 f show "\<exists>f0. calculate_fitness P solution = Inr f0 \<and> f \<le> f0"
    by simp
next
  assume pre: "references_known P solution \<and> total_task_duration P \<noteq> 0 \<and>
               distinct (map fst (tasks P))"
  then obtain f0 where f0: "calculate_fitness P solution = Inr f0"
    using calculate_fitness_total by blast
  have "\<exists>st'. ls_loop P rnd (nat max_iterations) max_no_improve
              \<lparr>ls_best_solution = solution, ls_best_fitness = f0,
               ls_current_solution = solution, ls_no_improve_counter = 0,
               ls_cursor = c\<rparr> = Inr st'"
    using pre by (intro ls_loop_ok) simp_all
  then show "\<exists>best f c'.
         ls_improve_solution P rnd c solution max_iterations max_no_improve = Inr (best, f, c')"
    using f0 by (auto simp: ls_improve_solution_def)
qed

theorem local_search_never_regresses_witness:
  "references_known chain_problem [(''T1'', ''S1'', 0), (''T2'', ''S1'', 0)] \<and>
   total_task_duration chain_problem \<noteq> 0 \<and> distinct (map fst (tasks chain_problem)) \<and>
   ls_improve_solution chain_problem (\<lambda>i. 1) 0 [(''T1'', ''S1'', 0), (''T2'', ''S1'', 0)] 1 5
     = Inr ([(''T1'', ''S1'', 0), (''T2'', ''S2'', 0)], Fin 860, 6) \<and>
   calculate_fitness chain_problem [(''T1'', ''S1'', 0), (''T2'', ''S1'', 0)] = Inr (Fin 2060) \<and>
   (\<exists>f0. calculate_fitness chain_problem [(''T1'', ''S1'', 0), (''T2'', ''S1'', 0)] = Inr f0 \<and>
         Fin 860 \<le> f0)"
proof -
  let ?sol = "[(''T1'', ''S1'', 0::real), (''T2'', ''S1'', 0)]"
  have h: "references_known chain_problem ?sol \<and> total_task_duration chain_problem \<noteq> 0 \<and>
           distinct (map fst (tasks chain_problem))"
    by (simp add: references_known_def chain_problem_def total_task_duration_def)
  have v: "calculate_fitness chain_problem ?sol = Inr (Fin 2060)"
    by (simp add: fitness_eval_defs chain_problem_def Let_def)
  from local_search_never_regresses[where P = chain_problem and rnd = "\<lambda>i. 1" and c = 0
      and solution = ?sol and max_iterations = 1 and max_no_improve = 5
      and best = "[(''T1'', ''S1'', 0), (''T2'', ''S2'', 0)]" and f = "Fin 860" and c' = 6]
    ls_example_run
  have "\<exists>f0. calculate_fitness chain_problem ?sol = Inr f0 \<and> Fin 860 \<le> f0"
    by blast
  with h v ls_example_run show ?thesis by blast
qed

section \<open>Properties of simulated annealing\<close>



















section \<open>Properties of ring migration\<close>

lemma py_index_found:
  "x \<in> set xs \<Longrightarrow> \<exists>i. py_index xs x = Inr i \<and> i < length xs \<and> xs ! i = x"
  by (induction xs) auto

lemma replace_worst_length:
  "replace_worst sorted_dest j migrants dest_pop = Inr dest_pop' \<Longrightarrow>
   length dest_pop' = length dest_pop"
  by (induction migrants arbitrary: j dest_pop) (auto split: if_splits sum.splits)

lemma mset_update_add:
  "i < length xs \<Longrightarrow> add_mset (xs ! i) (mset (xs[i := y])) = add_mset y (mset xs)"
  by (simp add: mset_update)

lemma replace_worst_mset:
  "mset (drop j sorted_dest) \<subseteq># mset dest_pop \<Longrightarrow>
   \<exists>dest_pop'. replace_worst sorted_dest j migrants dest_pop = Inr dest_pop' \<and>
     mset dest_pop' + mset (take (length migrants) (drop j sorted_dest))
       = mset dest_pop + mset (take (length sorted_dest - j) migrants)"
proof (induction migrants arbitrary: j dest_pop)
  case Nil
  then show ?case by simp
next
  case (Cons migrant rest)
  show ?case
  proof (cases "j < length sorted_dest")
    case False
    with Cons.IH[of "Suc j" dest_pop] Cons.prems show ?thesis by simp
  next
    case True
    then have d: "drop j sorted_dest = sorted_dest ! j # drop (Suc j) sorted_dest"
      by (simp add: Cons_nth_drop_Suc)
    from Cons.prems have sub0: "add_mset (sorted_dest ! j) (mset (drop (Suc j) sorted_dest))
        \<subseteq># mset dest_pop"
      by (simp add: d)
    then have "sorted_dest ! j \<in># mset dest_pop"
      by (rule mset_subset_eq_insertD[THEN conjunct1])
    then have mem: "sorted_dest ! j \<in> set dest_pop" by simp
    from py_index_found[OF mem] obtain idx where idx: "py_index dest_pop (sorted_dest ! j) = Inr idx"
      and r: "idx < length dest_pop" and at: "dest_pop ! idx = sorted_dest ! j" by blast
    have upd: "add_mset (sorted_dest ! j) (mset (dest_pop[idx := migrant]))
                 = add_mset migrant (mset dest_pop)"
      using mset_update_add[OF r, of migrant] at by simp
    have "add_mset (sorted_dest ! j) (mset (drop (Suc j) sorted_dest))
            \<subseteq># add_mset migrant (mset dest_pop)"
      using sub0 by (rule subset_mset.order_trans) simp
    then have sub: "mset (drop (Suc j) sorted_dest) \<subseteq># mset (dest_pop[idx := migrant])"
      unfolding upd[symmetric] by simp
    from Cons.IH[OF sub] obtain dp' where
      rw: "replace_worst sorted_dest (Suc j) rest (dest_pop[idx := migrant]) = Inr dp'"
      and c: "mset dp' + mset (take (length rest) (drop (Suc j) sorted_dest))
               = mset (dest_pop[idx := migrant]) + mset (take (length sorted_dest - Suc j) rest)"
      by blast
    from True have len: "length sorted_dest - j = Suc (length sorted_dest - Suc j)" by simp
    have "mset dp' + mset (take (length (migrant # rest)) (drop j sorted_dest))
          = add_mset (sorted_dest ! j) (mset dp' + mset (take (length rest) (drop (Suc j) sorted_dest)))"
      by (simp add: d)
    also have "\<dots> = add_mset (sorted_dest ! j) (mset (dest_pop[idx := migrant]))
                       + mset (take (length sorted_dest - Suc j) rest)"
      by (simp add: c)
    also have "\<dots> = add_mset migrant (mset dest_pop) + mset (take (length sorted_dest - Suc j) rest)"
      by (simp only: upd)
    also have "\<dots> = mset dest_pop + mset (take (length sorted_dest - j) (migrant # rest))"
      by (simp add: len)
    finally show ?thesis
      using True idx rw by simp
  qed
qed

lemma get_fitness_all_length:
  "get_fitness_all P cache xs = Inr (fs, cache') \<Longrightarrow> length fs = length xs"
  by (induction xs arbitrary: cache fs) (auto split: prod.splits sum.splits)

lemma sorted_by_fitness_mset:
  assumes "sorted_by_fitness P cache reverse pop = Inr (sorted_pop, cache')"
  shows "mset sorted_pop = mset pop"
proof -
  from assms obtain keys where k: "get_fitness_all P cache pop = Inr (keys, cache')"
    and s: "sorted_pop = map snd (if reverse then rev (sort_key fst (rev (zip keys pop)))
                                  else sort_key fst (zip keys pop))"
    by (auto simp: sorted_by_fitness_def split: sum.splits)
  have "mset sorted_pop = image_mset snd (mset (zip keys pop))"
    by (simp add: s)
  also have "\<dots> = mset (map snd (zip keys pop))" by simp
  also have "\<dots> = mset pop"
    using get_fitness_all_length[OF k] by (simp only: map_snd_zip)
  finally show ?thesis .
qed

lemma select_migrants_source:
  "select_migrants P migration_size source = Inr (migrants, source') \<Longrightarrow>
   current_population source' = current_population source"
  by (auto simp: select_migrants_def split: sum.splits)

lemma receive_migrants_content:
  assumes "receive_migrants P migrants dest = Inr dest'"
  shows "length (current_population dest') = length (current_population dest) \<and>
         mset (take (length (current_population dest)) migrants)
           \<subseteq># mset (current_population dest')"
proof (cases "current_population dest = []")
  case True
  with assms show ?thesis by (simp add: receive_migrants_def)
next
  case False
  let ?pop = "current_population dest"
  from assms False obtain sorted_dest cache' dest_pop where
    s: "sorted_by_fitness P (fitness_cache dest) True ?pop = Inr (sorted_dest, cache')" and
    r: "replace_worst sorted_dest 0 migrants ?pop = Inr dest_pop" and
    d: "current_population dest' = dest_pop"
    by (auto simp: receive_migrants_def split: sum.splits)
  have perm: "mset sorted_dest = mset ?pop"
    using sorted_by_fitness_mset[OF s] .
  then have len: "length sorted_dest = length ?pop"
    by (rule mset_eq_length)
  from replace_worst_mset[of 0 sorted_dest ?pop migrants] perm r
  have eq: "mset dest_pop + mset (take (length migrants) sorted_dest)
              = mset ?pop + mset (take (length sorted_dest) migrants)"
    by simp
  have "mset (take (length migrants) sorted_dest) \<subseteq># mset ?pop"
    unfolding perm[symmetric]
    by (metis append_take_drop_id mset_append mset_subset_eq_add_left)
  then obtain Z where Z: "mset ?pop = mset (take (length migrants) sorted_dest) + Z"
    by (auto simp: mset_subset_eq_exists_conv)
  from eq Z have "mset dest_pop = Z + mset (take (length sorted_dest) migrants)"
    by (simp add: ac_simps)
  then have "mset (take (length ?pop) migrants) \<subseteq># mset dest_pop"
    by (simp add: len)
  with replace_worst_length[OF r] d show ?thesis by simp
qed

lemma migrate_step_shape:
  assumes m: "migrate_step P migration_size islands i = Inr islands'" and i: "i < length islands"
  shows "length islands' = length islands \<and>
         (\<forall>k < length islands.
            length (current_population (islands' ! k)) = length (current_population (islands ! k)) \<and>
            (k \<noteq> (i + 1) mod length islands \<longrightarrow>
               current_population (islands' ! k) = current_population (islands ! k)))"
proof (cases "current_population (islands ! i) = []")
  case True
  with m show ?thesis by (simp add: migrate_step_def)
next
  case False
  let ?dest = "(i + 1) mod length islands"
  from i have "0 < length islands" by (cases islands) simp_all
  then have dest: "?dest < length islands" by (rule mod_less_divisor)
  from m False obtain migrants source_island dest_island where
    sel: "select_migrants P migration_size (islands ! i) = Inr (migrants, source_island)" and
    rec: "receive_migrants P migrants (islands[i := source_island] ! ?dest) = Inr dest_island" and
    res: "islands' = islands[i := source_island, ?dest := dest_island]"
    by (auto simp: migrate_step_def Let_def split: sum.splits)
  note sp = select_migrants_source[OF sel]
  have mid: "current_population (islands[i := source_island] ! k)
                 = current_population (islands ! k)" if "k < length islands" for k
  proof (cases "k = i")
    case True
    with that sp show ?thesis by simp
  next
    case False
    then show ?thesis by simp
  qed
  from receive_migrants_content[OF rec] mid[OF dest]
  have dl: "length (current_population dest_island) = length (current_population (islands ! ?dest))"
    by simp
  show ?thesis
  proof (intro conjI allI impI)
    show "length islands' = length islands" by (simp add: res)
  next
    fix k assume k: "k < length islands"
    show "length (current_population (islands' ! k)) = length (current_population (islands ! k))"
      using k dl mid[OF k] by (cases "k = ?dest") (simp_all add: res)
  next
    fix k assume k: "k < length islands" and "k \<noteq> ?dest"
    then show "current_population (islands' ! k) = current_population (islands ! k)"
      using mid[OF k] by (simp add: res)
  qed
qed

lemma migrate_loop_shape:
  assumes "migrate_loop P migration_size steps islands = Inr islands'"
    and "\<forall>i \<in> set steps. i < length islands"
  shows "length islands' = length islands \<and>
         (\<forall>k < length islands.
            length (current_population (islands' ! k)) = length (current_population (islands ! k)) \<and>
            (k \<notin> (\<lambda>i. (i + 1) mod length islands) ` set steps \<longrightarrow>
               current_population (islands' ! k) = current_population (islands ! k)))"
  using assms
proof (induction steps arbitrary: islands)
  case Nil
  then show ?case by simp
next
  case (Cons i steps)
  from Cons.prems obtain islands1 where
    s: "migrate_step P migration_size islands i = Inr islands1" and
    l: "migrate_loop P migration_size steps islands1 = Inr islands'"
    by (auto split: sum.splits)
  from Cons.prems(2) have i: "i < length islands" by simp
  note s1 = migrate_step_shape[OF s i]
  then have len1: "length islands1 = length islands" by simp
  from Cons.prems(2) len1 have "\<forall>i \<in> set steps. i < length islands1" by simp
  note s2 = Cons.IH[OF l this]
  show ?case
    using s1 s2 len1 by auto
qed

lemma good_fitness: "calculate_fitness chain_problem good_solution = Inr (Fin 540)"
  by (simp add: fitness_eval_defs chain_problem_def good_solution_def Let_def)

lemma bad_fitness: "calculate_fitness chain_problem bad_solution = Inr (Fin 2060)"
  by (simp add: fitness_eval_defs chain_problem_def bad_solution_def Let_def)

lemma good_bad_distinct: "good_solution \<noteq> bad_solution" "bad_solution \<noteq> good_solution"
  by (simp_all add: good_solution_def bad_solution_def)

lemmas migration_eval_defs =
  migrate_solutions_def migrate_step_def select_migrants_def receive_migrants_def
  sorted_by_fitness_def py_prefix_def get_fitness_def populations_def
  spec_migrate_snapshot_def fresh_island_def

lemma migrate_loop_append:
  "migrate_loop P migration_size (xs @ ys) islands =
     (case migrate_loop P migration_size xs islands of
        Inl e \<Rightarrow> Inl e
      | Inr islands1 \<Rightarrow> migrate_loop P migration_size ys islands1)"
  by (induction xs arbitrary: islands) (auto split: sum.splits)

lemma migrate_step_last:
  "migrate_loop P migration_size [i] islands = migrate_step P migration_size islands i"
  by (simp split: sum.splits)

text \<open>
  C4, as the code has it. The islands are processed in order and every write is
  applied at once. When island \<open>i\<close> is processed, island 0 and the islands after \<open>i\<close>
  still hold their populations from before the round, and the step for island \<open>i\<close>
  runs on the state left by the steps for the islands before it: only island 0
  selects its migrants from a population untouched by the round, an island \<open>i \<ge> 1\<close>
  selects them from its population after the migrants of island \<open>i - 1\<close> were
  written into it.
\<close>

theorem migration_is_sequential:
  assumes "i < length islands"
    and "migrate_loop P migration_size [0..<i] islands = Inr islands1"
  shows "(\<forall>j < length islands. j = 0 \<or> i < j \<longrightarrow>
            current_population (islands1 ! j) = current_population (islands ! j)) \<and>
         migrate_loop P migration_size [0..<Suc i] islands
           = migrate_step P migration_size islands1 i \<and>
         migrate_solutions P migration_size islands
           = (case migrate_step P migration_size islands1 i of
                Inl e \<Rightarrow> Inl e
              | Inr islands2 \<Rightarrow>
                  migrate_loop P migration_size [Suc i..<length islands] islands2)"
proof (intro conjI allI impI)
  fix j assume j: "j < length islands" and c: "j = 0 \<or> i < j"
  have steps: "\<forall>k \<in> set [0..<i]. k < length islands"
    using assms(1) by simp
  have "j \<notin> (\<lambda>k. (k + 1) mod length islands) ` set [0..<i]"
  proof
    assume "j \<in> (\<lambda>k. (k + 1) mod length islands) ` set [0..<i]"
    then obtain k where k: "k < i" and jk: "j = (k + 1) mod length islands" by auto
    from k assms(1) have "k + 1 < length islands" by simp
    with jk have "j = k + 1" by simp
    with k c show False by auto
  qed
  with migrate_loop_shape[OF assms(2) steps] j
  show "current_population (islands1 ! j) = current_population (islands ! j)" by blast
next
  have "[0..<Suc i] = [0..<i] @ [i]" by simp
  then show "migrate_loop P migration_size [0..<Suc i] islands
               = migrate_step P migration_size islands1 i"
    by (simp only: migrate_loop_append assms(2) sum.case migrate_step_last)
next
  have "[0..<length islands] = [0..<i] @ [i] @ [Suc i..<length islands]"
    using assms(1) by (metis append_Cons append_Nil less_imp_le_nat upt_add_eq_append
          upt_conv_Cons zero_le le_add_diff_inverse)
  then show "migrate_solutions P migration_size islands
           = (case migrate_step P migration_size islands1 i of
                Inl e \<Rightarrow> Inl e
              | Inr islands2 \<Rightarrow>
                  migrate_loop P migration_size [Suc i..<length islands] islands2)"
    by (simp only: migrate_solutions_def migrate_loop_append assms(2) sum.case migrate_step_last)
qed


theorem migration_is_sequential_witness:
  "(1::nat) < length [fresh_island [good_solution], fresh_island [bad_solution],
                     fresh_island [bad_solution]] \<and>
   migrate_loop chain_problem 1 [0..<1]
       [fresh_island [good_solution], fresh_island [bad_solution], fresh_island [bad_solution]]
     = Inr [\<lparr>current_population = [good_solution],
              fitness_cache = [(good_solution, Fin 540)]\<rparr>,
            \<lparr>current_population = [good_solution],
              fitness_cache = [(bad_solution, Fin 2060)]\<rparr>,
            fresh_island [bad_solution]] \<and>
   migrate_loop chain_problem 1 [0..<Suc 1]
       [fresh_island [good_solution], fresh_island [bad_solution], fresh_island [bad_solution]]
     = migrate_step chain_problem 1
         [\<lparr>current_population = [good_solution],
            fitness_cache = [(good_solution, Fin 540)]\<rparr>,
          \<lparr>current_population = [good_solution],
            fitness_cache = [(bad_solution, Fin 2060)]\<rparr>,
          fresh_island [bad_solution]] 1 \<and>
   populations (migrate_step chain_problem 1
         [\<lparr>current_population = [good_solution],
            fitness_cache = [(good_solution, Fin 540)]\<rparr>,
          \<lparr>current_population = [good_solution],
            fitness_cache = [(bad_solution, Fin 2060)]\<rparr>,
          fresh_island [bad_solution]] 1)
     = Inr [[good_solution], [good_solution], [good_solution]]"
proof -
  let ?islands = "[fresh_island [good_solution], fresh_island [bad_solution],
                   fresh_island [bad_solution]]"
  let ?islands1 = "[\<lparr>current_population = [good_solution],
                      fitness_cache = [(good_solution, Fin 540)]\<rparr>,
                    \<lparr>current_population = [good_solution],
                      fitness_cache = [(bad_solution, Fin 2060)]\<rparr>,
                    fresh_island [bad_solution]]"
  have h1: "(1::nat) < length ?islands" by simp
  have h2: "migrate_loop chain_problem 1 [0..<1] ?islands = Inr ?islands1"
    by (simp add: migration_eval_defs good_fitness bad_fitness good_bad_distinct Let_def)
  have v: "populations (migrate_step chain_problem 1 ?islands1 1)
             = Inr [[good_solution], [good_solution], [good_solution]]"
    by (simp add: migration_eval_defs good_fitness bad_fitness good_bad_distinct Let_def)
  from migration_is_sequential[OF h1 h2] h1 h2 v show ?thesis by simp
qed

text \<open>
  C4 as stated fails. Island 0 holds the good solution, islands 1 and 2 the bad one,
  and one migrant moves per step. The code writes the good solution into island 1 and
  then selects it as the migrant out of island 1, so island 2 receives it in the same
  round; with migrants taken from the populations before the round, island 2
  receives the bad solution of island 1.
\<close>

theorem migration_snapshot_counterexample:
  "populations (migrate_solutions chain_problem 1
       [fresh_island [good_solution], fresh_island [bad_solution], fresh_island [bad_solution]])
     = Inr [[good_solution], [good_solution], [good_solution]] \<and>
   populations (spec_migrate_snapshot chain_problem 1
       [fresh_island [good_solution], fresh_island [bad_solution], fresh_island [bad_solution]])
     = Inr [[bad_solution], [good_solution], [bad_solution]]"
proof -
  let ?ex0 = "[fresh_island [good_solution], fresh_island [bad_solution], fresh_island [bad_solution]]"
  let ?ex1 = "[\<lparr>current_population = [good_solution], fitness_cache = [(good_solution, Fin 540)]\<rparr>,
       \<lparr>current_population = [good_solution], fitness_cache = [(bad_solution, Fin 2060)]\<rparr>,
       fresh_island [bad_solution]]"
  let ?ex2 = "[\<lparr>current_population = [good_solution], fitness_cache = [(good_solution, Fin 540)]\<rparr>,
       \<lparr>current_population = [good_solution], fitness_cache = [(bad_solution, Fin 2060), (good_solution, Fin 540)]\<rparr>,
       \<lparr>current_population = [good_solution], fitness_cache = [(bad_solution, Fin 2060)]\<rparr>]"
  let ?ex3 = "[\<lparr>current_population = [good_solution], fitness_cache = [(good_solution, Fin 540)]\<rparr>,
       \<lparr>current_population = [good_solution], fitness_cache = [(bad_solution, Fin 2060), (good_solution, Fin 540)]\<rparr>,
       \<lparr>current_population = [good_solution], fitness_cache = [(bad_solution, Fin 2060), (good_solution, Fin 540)]\<rparr>]"
  have s0: "migrate_step chain_problem 1 ?ex0 0 = Inr ?ex1"
    by (simp add: migration_eval_defs good_fitness bad_fitness good_bad_distinct Let_def)
  have s1: "migrate_step chain_problem 1 ?ex1 (Suc 0) = Inr ?ex2"
    by (simp add: migration_eval_defs good_fitness bad_fitness good_bad_distinct Let_def)
  have s2: "migrate_step chain_problem 1 ?ex2 (Suc (Suc 0)) = Inr ?ex3"
    by (simp add: migration_eval_defs good_fitness bad_fitness good_bad_distinct Let_def)
  have u: "[0..<length ?ex0] = [0, Suc 0, Suc (Suc 0)]"
    by (simp add: upt_conv_Cons)
  have code: "migrate_solutions chain_problem 1 ?ex0 = Inr ?ex3"
    unfolding migrate_solutions_def u by (simp only: migrate_loop.simps s0 s1 s2 sum.case)
  let ?sel = "[\<lparr>current_population = [good_solution], fitness_cache = [(good_solution, Fin 540)]\<rparr>,
       \<lparr>current_population = [bad_solution], fitness_cache = [(bad_solution, Fin 2060)]\<rparr>,
       \<lparr>current_population = [bad_solution], fitness_cache = [(bad_solution, Fin 2060)]\<rparr>]"
  let ?ap1 = "[\<lparr>current_population = [good_solution], fitness_cache = [(good_solution, Fin 540)]\<rparr>,
       \<lparr>current_population = [good_solution], fitness_cache = [(bad_solution, Fin 2060)]\<rparr>,
       \<lparr>current_population = [bad_solution], fitness_cache = [(bad_solution, Fin 2060)]\<rparr>]"
  let ?ap3 = "[\<lparr>current_population = [bad_solution], fitness_cache = [(good_solution, Fin 540)]\<rparr>,
       \<lparr>current_population = [good_solution], fitness_cache = [(bad_solution, Fin 2060)]\<rparr>,
       \<lparr>current_population = [bad_solution], fitness_cache = [(bad_solution, Fin 2060)]\<rparr>]"
  have sel: "snapshot_select chain_problem 1 ?ex0
               = Inr ([[good_solution], [bad_solution], [bad_solution]], ?sel)"
    by (simp add: migration_eval_defs good_fitness bad_fitness good_bad_distinct Let_def)
  have a0: "snapshot_apply chain_problem 0 [[good_solution], [bad_solution], [bad_solution]] ?sel
              = snapshot_apply chain_problem (Suc 0) [[bad_solution], [bad_solution]] ?ap1"
    by (simp add: migration_eval_defs good_fitness bad_fitness good_bad_distinct Let_def)
  have a1: "snapshot_apply chain_problem (Suc 0) [[bad_solution], [bad_solution]] ?ap1
              = snapshot_apply chain_problem (Suc (Suc 0)) [[bad_solution]] ?ap1"
    by (simp add: migration_eval_defs good_fitness bad_fitness good_bad_distinct Let_def)
  have a2: "snapshot_apply chain_problem (Suc (Suc 0)) [[bad_solution]] ?ap1 = Inr ?ap3"
    by (simp add: migration_eval_defs good_fitness bad_fitness good_bad_distinct Let_def)
  have spec: "spec_migrate_snapshot chain_problem 1 ?ex0 = Inr ?ap3"
    unfolding spec_migrate_snapshot_def by (simp only: sel sum.case prod.case a0 a1 a2)
  show ?thesis
    unfolding code spec by (simp add: populations_def)
qed







end
